theory Spec2Isabelle
  imports Main
begin

section \<open>Values, exceptions and the outside world\<close>

text \<open>
  The scraper of \<^verbatim>\<open>main.py\<close> talks to three HTTP libraries, an HTML parser, a JSON
  parser, the clock and the file system. Everything the program itself computes is
  embedded below; every library call is a field of the record \<open>env\<close>. A library call
  that can raise returns a sum whose left summand is the exception.
\<close>

datatype strategy = TLS | Aiohttp | Httpx

text \<open>Python exceptions (all of them subclasses of \<^verbatim>\<open>Exception\<close>), with their message.\<close>

datatype exn =
    Exception string
  | KeyError string
  | TypeError string
  | ValueError string
  | OSError string
  | JSONDecodeError string
  | UnboundLocalError string
  | RecursionError string

text \<open>
  The values \<^verbatim>\<open>json.loads\<close> produces; a Python dict is an association list. The program
  only passes numbers on, so a number that is not an integer is held as its text.
\<close>

datatype json =
    JNull
  | JBool bool
  | JNum int
  | JFloat string
  | JStr string
  | JArr "json list"
  | JObj "(string \<times> json) list"

text \<open>
  What the program does to the world, in order: an HTTP GET through one of the three
  client libraries, and the opening of a file. The answers of the world may depend on
  everything that was done to it before.
\<close>

datatype io_event = Request strategy string | OpenFile string

text \<open>One constructor for each \<^verbatim>\<open>logger\<close> call of the source, holding the interpolated values.\<close>

datatype log_entry =
    FetchingURL string
  | FetchedURL string
  | ClientError strategy string
  | FetchMethodFailed exn
  | GettingDetails string
  | ErrorGettingDetails string exn
  | StartLoadLinks
  | NoResponse int
  | FoundLinks nat int
  | NoLinksFound int
  | NoMorePages
  | ErrorParsingPage int exn
  | ResponseContent string
  | TotalLinks nat
  | ScrapedJob json
  | NoDataFound string
  | StartScraping
  | NoLinksForQuery string
  | ProcessingLinks nat string
  | ErrorInRun string exn
  | MainError exn

record env =
  transport :: "io_event list \<Rightarrow> strategy \<Rightarrow> string \<Rightarrow> string + string"
    \<comment> \<open>the GET of one client library: \<open>Inr\<close> the response text, \<open>Inl\<close> the message of
        the exception it raised\<close>
  open_error :: "io_event list \<Rightarrow> string \<Rightarrow> string option"
    \<comment> \<open>\<^verbatim>\<open>open(filename, ...)\<close>: the message of the \<^verbatim>\<open>OSError\<close> it raises, if it does\<close>
  write_error :: "io_event list \<Rightarrow> string \<Rightarrow> string option"
    \<comment> \<open>writing to an open file and closing it: the message of the \<^verbatim>\<open>OSError\<close> raised, if
        one is\<close>
  now :: "io_event list \<Rightarrow> string"
    \<comment> \<open>\<^verbatim>\<open>datetime.now().strftime('%Y-%m-%d %H:%M:%S')\<close>\<close>
  urlencode :: "int \<Rightarrow> string \<Rightarrow> string"
    \<comment> \<open>\<^verbatim>\<open>urlencode({'page': page_number, 'q': query})\<close>\<close>
  next_page_text :: "string \<Rightarrow> string option"
    \<comment> \<open>\<^verbatim>\<open>soup.find('a', attrs={'rel': 'next'})\<close> of a response: the text of the tag\<close>
  py_int :: "string \<Rightarrow> int option"
    \<comment> \<open>\<^verbatim>\<open>int(text)\<close>; \<open>None\<close> when it raises \<^verbatim>\<open>ValueError\<close>\<close>
  job_list_titles :: "string \<Rightarrow> string option list"
    \<comment> \<open>\<^verbatim>\<open>soup.find_all('a', attrs={'class': 'jobList-title'})\<close>: for each tag its
        \<^verbatim>\<open>href\<close> attribute, if it has one\<close>
  ld_json_text :: "string \<Rightarrow> string option"
    \<comment> \<open>\<^verbatim>\<open>soup.find('script', attrs={'type': 'application/ld+json'})\<close>: the text of the tag\<close>
  reference_id :: "string \<Rightarrow> string"
    \<comment> \<open>the local \<^verbatim>\<open>job_id\<close> of \<^verbatim>\<open>get_details\<close>, from the \<^verbatim>\<open>job-posting-reference\<close> div\<close>
  json_loads :: "string \<Rightarrow> exn + json"
  html_text :: "json \<Rightarrow> exn + string"
    \<comment> \<open>\<^verbatim>\<open>BeautifulSoup(x, 'lxml').text.strip()\<close>\<close>

text \<open>
  The state of a run: the attribute \<^verbatim>\<open>job_links\<close> of the scraper, the lines logged, the
  CSV files (each a list of rows) and what was done to the world. The field \<open>visited\<close>
  is not a variable of the program: it records, for every activation of \<^verbatim>\<open>get_links\<close>,
  its page number and the value bound to its local \<^verbatim>\<open>response\<close> (\<open>None\<close> when it was
  never assigned).
\<close>

record state =
  job_links :: "string list"
  logged :: "log_entry list"
  files :: "string \<rightharpoonup> json list list"
  history :: "io_event list"
  visited :: "(int \<times> string option) list"

definition logger :: "log_entry \<Rightarrow> state \<Rightarrow> state" where
  "logger m s = s\<lparr>logged := logged s @ [m]\<rparr>"

definition last_segment :: "string \<Rightarrow> string" where
  \<comment> \<open>\<^verbatim>\<open>url.split('/')[-1]\<close>\<close>
  "last_segment url = rev (takeWhile (\<lambda>c. c \<noteq> CHR ''/'') (rev url))"

section \<open>HTTPClient\<close>

definition fetch_with :: "strategy \<Rightarrow> env \<Rightarrow> string \<Rightarrow> state \<Rightarrow> (exn + string option) \<times> state" where
  \<comment> \<open>the common shape of \<^verbatim>\<open>fetch_tls\<close>, \<open>fetch_aiohttp\<close> and \<open>fetch_httpx\<close>: the GET, and on
      any exception an error line and the result \<^verbatim>\<open>None\<close>\<close>
  "fetch_with m e url s =
     (let s1 = s\<lparr>history := history s @ [Request m url]\<rparr> in
      case transport e (history s) m url of
        Inr text \<Rightarrow> (Inr (Some text), s1)
      | Inl msg \<Rightarrow> (Inr None, logger (ClientError m msg) s1))"

definition fetch_tls :: "env \<Rightarrow> string \<Rightarrow> state \<Rightarrow> (exn + string option) \<times> state" where
  "fetch_tls = fetch_with TLS"

definition fetch_aiohttp :: "env \<Rightarrow> string \<Rightarrow> state \<Rightarrow> (exn + string option) \<times> state" where
  "fetch_aiohttp = fetch_with Aiohttp"

definition fetch_httpx :: "env \<Rightarrow> string \<Rightarrow> state \<Rightarrow> (exn + string option) \<times> state" where
  "fetch_httpx = fetch_with Httpx"

fun fetch_method :: "strategy \<Rightarrow> env \<Rightarrow> string \<Rightarrow> state \<Rightarrow> (exn + string option) \<times> state" where
  "fetch_method TLS = fetch_tls"
| "fetch_method Aiohttp = fetch_aiohttp"
| "fetch_method Httpx = fetch_httpx"

text \<open>
  The \<^verbatim>\<open>for\<close> loop of \<^verbatim>\<open>HTTPClient.fetch\<close> over a list of methods: a truthy content
  (neither \<^verbatim>\<open>None\<close> nor the empty string) is returned at once, an exception of the
  method is logged, and after the last method the loop is left for the \<^verbatim>\<open>raise\<close>.
\<close>

fun fetch_loop :: "env \<Rightarrow> string \<Rightarrow> strategy list \<Rightarrow> state \<Rightarrow> (exn + string) \<times> state" where
  "fetch_loop e url [] s = (Inl (Exception ''All fetch methods failed''), s)"
| "fetch_loop e url (m # ms) s =
     (case fetch_method m e url s of
        (Inr (Some content), s1) \<Rightarrow>
          if content \<noteq> [] then (Inr content, logger (FetchedURL (last_segment url)) s1)
          else fetch_loop e url ms s1
      | (Inr None, s1) \<Rightarrow> fetch_loop e url ms s1
      | (Inl x, s1) \<Rightarrow> fetch_loop e url ms (logger (FetchMethodFailed x) s1))"

definition fetch_order :: "strategy list" where
  "fetch_order = [TLS, Aiohttp, Httpx]"

definition fetch :: "env \<Rightarrow> string \<Rightarrow> state \<Rightarrow> (exn + string) \<times> state" where
  "fetch e url s = fetch_loop e url fetch_order (logger (FetchingURL (last_segment url)) s)"

text \<open>
  For the statements about \<open>fetch\<close>: the requests made when the first \<open>k\<close> methods of
  \<open>ms\<close> have been tried, the answer the \<open>k\<close>-th method then gets, and whether an answer
  is a non-empty body.
\<close>

definition requests :: "string \<Rightarrow> strategy list \<Rightarrow> nat \<Rightarrow> io_event list" where
  "requests url ms k = map (\<lambda>m. Request m url) (take k ms)"

definition attempt :: "env \<Rightarrow> io_event list \<Rightarrow> string \<Rightarrow> strategy list \<Rightarrow> nat \<Rightarrow> string + string" where
  "attempt e h url ms k = transport e (h @ requests url ms k) (ms ! k) url"

fun nonempty_body :: "string + string \<Rightarrow> bool" where
  "nonempty_body (Inr text) = (text \<noteq> [])"
| "nonempty_body (Inl msg) = False"

section \<open>CSVWriter\<close>

record csv_writer =
  filename :: string
  fieldnames :: "string list"

definition initialize_file :: "env \<Rightarrow> csv_writer \<Rightarrow> state \<Rightarrow> (exn + unit) \<times> state" where
  \<comment> \<open>the header is written only when \<^verbatim>\<open>os.path.exists\<close> is false; \<^verbatim>\<open>open(..., 'w')\<close>
      creates the file, empty, before the header is written into it\<close>
  "initialize_file e w s =
     (if files s (filename w) = None then
        (let s1 = s\<lparr>history := history s @ [OpenFile (filename w)]\<rparr> in
         case open_error e (history s) (filename w) of
           Some msg \<Rightarrow> (Inl (OSError msg), s1)
         | None \<Rightarrow>
             (case write_error e (history s1) (filename w) of
                Some msg \<Rightarrow> (Inl (OSError msg), s1\<lparr>files := (files s1)(filename w \<mapsto> [])\<rparr>)
              | None \<Rightarrow>
                  (Inr (), s1\<lparr>files := (files s1)(filename w \<mapsto> [map JStr (fieldnames w)])\<rparr>)))
      else (Inr (), s))"

definition CSVWriter :: "env \<Rightarrow> string \<Rightarrow> string list \<Rightarrow> state \<Rightarrow> (exn + csv_writer) \<times> state" where
  \<comment> \<open>the constructor \<^verbatim>\<open>CSVWriter.__init__\<close>\<close>
  "CSVWriter e name columns s =
     (let w = \<lparr>filename = name, fieldnames = columns\<rparr> in
      case initialize_file e w s of
        (Inl x, s1) \<Rightarrow> (Inl x, s1)
      | (Inr u, s1) \<Rightarrow> (Inr w, s1))"

definition dict_to_list :: "string list \<Rightarrow> (string \<times> json) list \<Rightarrow> exn + json list" where
  \<comment> \<open>\<^verbatim>\<open>csv.DictWriter\<close>: a key outside the field names raises, a missing one is written
      as the empty string\<close>
  "dict_to_list columns d =
     (if list_all (\<lambda>kv. fst kv \<in> set columns) d
      then Inr (map (\<lambda>f. case map_of d f of Some v \<Rightarrow> v | None \<Rightarrow> JStr []) columns)
      else Inl (ValueError ''dict contains fields not in fieldnames''))"

definition save_row :: "env \<Rightarrow> csv_writer \<Rightarrow> (string \<times> json) list \<Rightarrow> state \<Rightarrow> (exn + unit) \<times> state" where
  \<comment> \<open>\<^verbatim>\<open>open(self.filename, 'a')\<close> creates a missing file; the row goes to its end\<close>
  "save_row e w d s =
     (let s1 = s\<lparr>history := history s @ [OpenFile (filename w)]\<rparr> in
      case open_error e (history s) (filename w) of
        Some msg \<Rightarrow> (Inl (OSError msg), s1)
      | None \<Rightarrow>
          (let rows = (case files s1 (filename w) of None \<Rightarrow> [] | Some rs \<Rightarrow> rs) in
           case dict_to_list (fieldnames w) d of
             Inl x \<Rightarrow> (Inl x, s1\<lparr>files := (files s1)(filename w \<mapsto> rows)\<rparr>)
           | Inr row \<Rightarrow>
               (case write_error e (history s1) (filename w) of
                  Some msg \<Rightarrow> (Inl (OSError msg), s1\<lparr>files := (files s1)(filename w \<mapsto> rows)\<rparr>)
                | None \<Rightarrow> (Inr (), s1\<lparr>files := (files s1)(filename w \<mapsto> rows @ [row])\<rparr>))))"

section \<open>ZipRecruiterScraper\<close>

record scraper =
  base_url :: string
  output_filename :: string
  csv_writer :: csv_writer

definition job_fieldnames :: "string list" where
  "job_fieldnames =
     [''Domain'', ''PostUrl'', ''JobID'', ''Title'', ''City'', ''State'',
      ''Speciality'', ''JobType'', ''JobDetails'', ''Industry'', ''Company'',
      ''PostedOn'', ''SalaryFrom'', ''SalaryUpto'', ''PayoutTerm'',
      ''IsEstimatedSalary'', ''ScrapedOn'']"

definition ZipRecruiterScraper :: "env \<Rightarrow> string \<Rightarrow> string \<Rightarrow> state \<Rightarrow> (exn + scraper) \<times> state" where
  \<comment> \<open>the constructor: \<^verbatim>\<open>self.job_links = []\<close>, then the CSV writer\<close>
  "ZipRecruiterScraper e base out s =
     (case CSVWriter e out job_fieldnames (s\<lparr>job_links := []\<rparr>) of
        (Inl x, s1) \<Rightarrow> (Inl x, s1)
      | (Inr w, s1) \<Rightarrow> (Inr \<lparr>base_url = base, output_filename = out, csv_writer = w\<rparr>, s1))"

definition get_page :: "env \<Rightarrow> scraper \<Rightarrow> int \<Rightarrow> string \<Rightarrow> state \<Rightarrow> (exn + string) \<times> state" where
  "get_page e self page_number query s =
     fetch e (base_url self @ ''/jobs/search?'' @ urlencode e page_number query) s"

subsection \<open>get\_details\<close>

fun getitem :: "json \<Rightarrow> string \<Rightarrow> exn + json" where
  \<comment> \<open>\<^verbatim>\<open>x[k]\<close> with a string key\<close>
  "getitem (JObj kvs) k = (case map_of kvs k of Some v \<Rightarrow> Inr v | None \<Rightarrow> Inl (KeyError k))"
| "getitem (JStr t) k = Inl (TypeError ''string indices must be integers'')"
| "getitem (JArr xs) k = Inl (TypeError ''list indices must be integers or slices, not str'')"
| "getitem JNull k = Inl (TypeError ''object is not subscriptable'')"
| "getitem (JBool b) k = Inl (TypeError ''object is not subscriptable'')"
| "getitem (JNum n) k = Inl (TypeError ''object is not subscriptable'')"
| "getitem (JFloat x) k = Inl (TypeError ''object is not subscriptable'')"

definition and_then :: "exn + 'a \<Rightarrow> ('a \<Rightarrow> exn + 'b) \<Rightarrow> exn + 'b" where
  \<comment> \<open>sequencing: the first exception ends the evaluation\<close>
  "and_then r f = (case r of Inl x \<Rightarrow> Inl x | Inr v \<Rightarrow> f v)"

definition job_record :: "env \<Rightarrow> io_event list \<Rightarrow> string \<Rightarrow> json \<Rightarrow> exn + (string \<times> json) list" where
  \<comment> \<open>the description and the dict of \<^verbatim>\<open>get_details\<close>, its items evaluated in order\<close>
  "job_record e h url data =
     and_then (getitem data ''description'') (\<lambda>d.
     and_then (html_text e d) (\<lambda>description.
     and_then (getitem data ''title'') (\<lambda>title.
     and_then (and_then (and_then (getitem data ''jobLocation'')
                 (\<lambda>l. getitem l ''address'')) (\<lambda>a. getitem a ''addressLocality'')) (\<lambda>city.
     and_then (and_then (and_then (getitem data ''jobLocation'')
                 (\<lambda>l. getitem l ''address'')) (\<lambda>a. getitem a ''addressRegion'')) (\<lambda>region.
     and_then (getitem data ''employmentType'') (\<lambda>job_type.
     and_then (and_then (getitem data ''hiringOrganization'') (\<lambda>org. getitem org ''name'')) (\<lambda>company.
     and_then (getitem data ''datePosted'') (\<lambda>posted.
     Inr [(''Domain'', JStr ''ZipRecruiter''),
          (''PostUrl'', JStr url),
          (''JobID'', JStr ''''),
          (''Title'', title),
          (''City'', city),
          (''State'', region),
          (''Speciality'', JStr ''''),
          (''JobType'', job_type),
          (''JobDetails'', JStr description),
          (''Industry'', JStr ''''),
          (''Company'', company),
          (''PostedOn'', posted),
          (''SalaryFrom'', JStr ''''),
          (''SalaryUpto'', JStr ''''),
          (''PayoutTerm'', JStr ''''),
          (''IsEstimatedSalary'', JBool False),
          (''ScrapedOn'', JStr (now e h))]))))))))"

definition details_of :: "env \<Rightarrow> io_event list \<Rightarrow> string \<Rightarrow> string \<Rightarrow> exn + (string \<times> json) list option" where
  \<comment> \<open>the \<^verbatim>\<open>try\<close> block of \<^verbatim>\<open>get_details\<close>; without a structured-data script the
      function falls off its end and returns \<^verbatim>\<open>None\<close>. The local \<^verbatim>\<open>job_id\<close> is
      computed and never used.\<close>
  "details_of e h url response =
     (let job_id = reference_id e response in
      case ld_json_text e response of
        None \<Rightarrow> Inr None
      | Some text \<Rightarrow>
          and_then (json_loads e text) (\<lambda>data.
          and_then (job_record e h url data) (\<lambda>r. Inr (Some r))))"

definition get_details :: "env \<Rightarrow> scraper \<Rightarrow> string \<Rightarrow> state \<Rightarrow> (exn + (string \<times> json) list option) \<times> state" where
  \<comment> \<open>the fetch stands before the \<^verbatim>\<open>try\<close>: its exception leaves the function\<close>
  "get_details e self url s =
     (case fetch e url (logger (GettingDetails (last_segment url)) s) of
        (Inl x, s1) \<Rightarrow> (Inl x, s1)
      | (Inr response, s1) \<Rightarrow>
          (case details_of e (history s1) url response of
             Inl x \<Rightarrow> (Inr None, logger (ErrorGettingDetails (last_segment url) x) s1)
           | Inr r \<Rightarrow> (Inr r, s1)))"

subsection \<open>load\_links\<close>

definition links_except :: "int \<Rightarrow> string option \<Rightarrow> exn \<Rightarrow> state \<Rightarrow> (exn + unit) \<times> state" where
  \<comment> \<open>the \<^verbatim>\<open>except\<close> clause of \<^verbatim>\<open>get_links\<close>; \<open>response\<close> is \<open>None\<close> when the local
      was never assigned, and reading it then raises\<close>
  "links_except page_number response x s =
     (let s1 = logger (ErrorParsingPage page_number x) s in
      case response of
        None \<Rightarrow> (Inl (UnboundLocalError ''response''), s1)
      | Some r \<Rightarrow> (Inr (), if r \<noteq> [] then logger (ResponseContent (take 500 r)) s1 else s1))"

definition extend_links :: "int \<Rightarrow> string option list \<Rightarrow> state \<Rightarrow> (exn + unit) \<times> state" where
  \<comment> \<open>\<^verbatim>\<open>self.job_links.extend([i['href'] for i in links])\<close>: a tag without
      \<^verbatim>\<open>href\<close> raises before anything is appended\<close>
  "extend_links page_number links s =
     (if links \<noteq> [] then
        (case those links of
           None \<Rightarrow> (Inl (KeyError ''href''), s)
         | Some hrefs \<Rightarrow>
             (Inr (), logger (FoundLinks (length links) page_number)
                        (s\<lparr>job_links := job_links s @ hrefs\<rparr>)))
      else (Inr (), logger (NoLinksFound page_number) s))"

text \<open>
  The recursion of \<^verbatim>\<open>get_links\<close> has no bound in the source; the interpreter bounds
  it. The model takes the number \<open>n\<close> of nested activations the interpreter still
  allows: the call that would start one more raises \<^verbatim>\<open>RecursionError\<close>, an
  \<^verbatim>\<open>Exception\<close>, which the handler of the calling activation catches like any other.
  (Where in the deepest activation the interpreter raises depends on the frames of
  the libraries; inside a client it is an exception of that client, which \<open>transport\<close>
  covers.)
\<close>

fun get_links :: "env \<Rightarrow> scraper \<Rightarrow> string \<Rightarrow> nat \<Rightarrow> int \<Rightarrow> state \<Rightarrow> (exn + unit) \<times> state" where
  "get_links e self query 0 page_number s =
     (Inl (RecursionError ''maximum recursion depth exceeded''), s)"
| "get_links e self query (Suc n) page_number s =
     (case get_page e self page_number query s of
        (Inl x, s1) \<Rightarrow>
          links_except page_number None x (s1\<lparr>visited := visited s1 @ [(page_number, None)]\<rparr>)
      | (Inr response, s1) \<Rightarrow>
          (let s2 = s1\<lparr>visited := visited s1 @ [(page_number, Some response)]\<rparr> in
           if response = [] then (Inr (), logger (NoResponse page_number) s2)
           else
             (case extend_links page_number (job_list_titles e response) s2 of
                (Inl x, s3) \<Rightarrow> links_except page_number (Some response) x s3
              | (Inr u, s3) \<Rightarrow>
                  (case next_page_text e response of
                     None \<Rightarrow> (Inr (), logger NoMorePages s3)
                   | Some text \<Rightarrow>
                       (case py_int e text of
                          None \<Rightarrow> links_except page_number (Some response) (ValueError text) s3
                        | Some next_page \<Rightarrow>
                            (case get_links e self query n next_page s3 of
                               (Inl x, s4) \<Rightarrow> links_except page_number (Some response) x s4
                             | (Inr u, s4) \<Rightarrow> (Inr (), s4)))))))"

definition load_links :: "env \<Rightarrow> scraper \<Rightarrow> nat \<Rightarrow> string \<Rightarrow> state \<Rightarrow> (exn + string list) \<times> state" where
  "load_links e self n query s =
     (case get_links e self query n 1 (logger StartLoadLinks s) of
        (Inl x, s1) \<Rightarrow> (Inl x, s1)
      | (Inr u, s1) \<Rightarrow> (Inr (job_links s1), logger (TotalLinks (length (job_links s1))) s1))"

subsection \<open>process\_link and run\<close>

definition process_link :: "env \<Rightarrow> scraper \<Rightarrow> string \<Rightarrow> state \<Rightarrow> (exn + unit) \<times> state" where
  "process_link e self link s =
     (case get_details e self link s of
        (Inl x, s1) \<Rightarrow> (Inl x, s1)
      | (Inr None, s1) \<Rightarrow> (Inr (), logger (NoDataFound link) s1)
      | (Inr (Some details), s1) \<Rightarrow>
          if details = [] then (Inr (), logger (NoDataFound link) s1)
          else
            (case map_of details ''Title'' of
               None \<Rightarrow> (Inl (KeyError ''Title''), s1)
             | Some title \<Rightarrow> save_row e (csv_writer self) details (logger (ScrapedJob title) s1)))"

text \<open>
  \<^verbatim>\<open>asyncio.gather(*tasks)\<close> is modelled for one schedule: the tasks run in the order of
  the list, each to its end, before the result of the gather is delivered. This is the
  schedule of the event loop when no task is suspended (\<^verbatim>\<open>fetch_tls\<close> calls a blocking
  client, \<^verbatim>\<open>save_row\<close> writes synchronously; every task is started before the gather
  reports). \<^verbatim>\<open>gather\<close> is called without \<^verbatim>\<open>return_exceptions\<close>: the first exception of a
  task is raised to the caller, the exceptions of the other tasks are dropped. Other
  interleavings are not modelled: a statement that depends on the schedule is made
  for batches whose pages are all answered by the blocking client.
\<close>

fun run_tasks :: "env \<Rightarrow> scraper \<Rightarrow> string list \<Rightarrow> state \<Rightarrow> (exn + unit) list \<times> state" where
  "run_tasks e self [] s = ([], s)"
| "run_tasks e self (link # links) s =
     (case process_link e self link s of
        (r, s1) \<Rightarrow> (case run_tasks e self links s1 of (rs, s2) \<Rightarrow> (r # rs, s2)))"

fun first_exception :: "(exn + unit) list \<Rightarrow> exn option" where
  "first_exception [] = None"
| "first_exception (Inl x # rs) = Some x"
| "first_exception (Inr u # rs) = first_exception rs"

definition gather :: "env \<Rightarrow> scraper \<Rightarrow> string list \<Rightarrow> state \<Rightarrow> (exn + unit) \<times> state" where
  "gather e self links s =
     (case run_tasks e self links s of
        (rs, s1) \<Rightarrow> (case first_exception rs of Some x \<Rightarrow> (Inl x, s1) | None \<Rightarrow> (Inr (), s1)))"

definition run_query :: "env \<Rightarrow> scraper \<Rightarrow> nat \<Rightarrow> string \<Rightarrow> state \<Rightarrow> (exn + unit) \<times> state" where
  \<comment> \<open>the \<^verbatim>\<open>try\<close> block in the loop of \<^verbatim>\<open>run\<close>\<close>
  "run_query e self n query s =
     (case load_links e self n query s of
        (Inl x, s1) \<Rightarrow> (Inl x, s1)
      | (Inr links, s1) \<Rightarrow>
          if links = [] then (Inr (), logger (NoLinksForQuery query) s1)
          else gather e self links (logger (ProcessingLinks (length links) query) s1))"

fun run_queries :: "env \<Rightarrow> scraper \<Rightarrow> nat \<Rightarrow> string list \<Rightarrow> state \<Rightarrow> (exn + unit) \<times> state" where
  \<comment> \<open>the \<^verbatim>\<open>for\<close> loop of \<^verbatim>\<open>run\<close>: an exception of the block is logged, the next query follows\<close>
  "run_queries e self n [] s = (Inr (), s)"
| "run_queries e self n (query # queries) s =
     (case run_query e self n query s of
        (Inl x, s1) \<Rightarrow> run_queries e self n queries (logger (ErrorInRun query x) s1)
      | (Inr u, s1) \<Rightarrow> run_queries e self n queries s1)"

definition SKILLS :: "string list" where
  "SKILLS = [''aws'', ''python'']"

definition run :: "env \<Rightarrow> scraper \<Rightarrow> nat \<Rightarrow> state \<Rightarrow> (exn + unit) \<times> state" where
  "run e self n s = run_queries e self n SKILLS (logger StartScraping s)"

definition main :: "env \<Rightarrow> string \<Rightarrow> nat \<Rightarrow> state \<Rightarrow> (exn + unit) \<times> state" where
  \<comment> \<open>\<open>out\<close> is \<^verbatim>\<open>Config.OUTPUTFILE\<close>, a name made from the date of the day; \<open>n\<close> is the
      recursion limit of the interpreter\<close>
  "main e out n s =
     (case ZipRecruiterScraper e ''https://www.ziprecruiter.in'' out s of
        (Inl x, s1) \<Rightarrow> (Inr (), logger (MainError x) s1)
      | (Inr self, s1) \<Rightarrow>
          (case run e self n s1 of
             (Inl x, s2) \<Rightarrow> (Inr (), logger (MainError x) s2)
           | (Inr u, s2) \<Rightarrow> (Inr (), s2)))"

section \<open>Notions used in the statements\<close>

text \<open>For the statements about the crawl: the activations of \<^verbatim>\<open>get_links\<close> between two
  states, the page an activation goes on to (the integer of its next-page link, when
  its links were read and the walk follows it), the shape of a walk (it starts at the
  given page and each activation is followed by the page it names), and the links an
  activation appends.\<close>

definition walk_of :: "state \<Rightarrow> state \<Rightarrow> (int \<times> string option) list" where
  "walk_of s s' = drop (length (visited s)) (visited s')"

fun token_of :: "env \<Rightarrow> string option \<Rightarrow> int option" where
  "token_of e None = None"
| "token_of e (Some response) =
     (if response = [] then None
      else case those (job_list_titles e response) of
        None \<Rightarrow> None
      | Some hrefs \<Rightarrow> (case next_page_text e response of None \<Rightarrow> None | Some text \<Rightarrow> py_int e text))"

fun follows :: "env \<Rightarrow> int \<Rightarrow> (int \<times> string option) list \<Rightarrow> bool" where
  "follows e p [] = False"
| "follows e p [v] = (fst v = p)"
| "follows e p (v # w # vs) =
     (fst v = p \<and> token_of e (snd v) = Some (fst w) \<and> follows e (fst w) (w # vs))"

fun page_links :: "env \<Rightarrow> int \<times> string option \<Rightarrow> string list" where
  "page_links e (p, None) = []"
| "page_links e (p, Some response) =
     (if response = [] then []
      else case those (job_list_titles e response) of None \<Rightarrow> [] | Some hrefs \<Rightarrow> hrefs)"

text \<open>Every page of a walk names a page with a greater number, if it names one.\<close>

definition tokens_increase :: "env \<Rightarrow> (int \<times> string option) list \<Rightarrow> bool" where
  "tokens_increase e vs =
     list_all (\<lambda>v. case token_of e (snd v) of None \<Rightarrow> True | Some k \<Rightarrow> fst v < k) vs"

text \<open>The lines logged by the handler in the loop of \<^verbatim>\<open>run\<close>.\<close>

fun is_run_error :: "log_entry \<Rightarrow> bool" where
  "is_run_error (ErrorInRun query x) = True"
| "is_run_error m = False"

definition run_errors :: "state \<Rightarrow> log_entry list" where
  "run_errors s = filter is_run_error (logged s)"

section \<open>Example sites\<close>

text \<open>
  Concrete worlds on which the definitions are evaluated: a small site with two listing
  pages for the query aws, one for the query python, and two job pages.
\<close>

definition cloud_url :: string where
  "cloud_url = ''https://www.ziprecruiter.in/jobs/cloud-engineer''"

definition developer_url :: string where
  "developer_url = ''https://www.ziprecruiter.in/jobs/developer''"

definition job_posting :: "string \<Rightarrow> string \<Rightarrow> json" where
  "job_posting title company =
     JObj [(''title'', JStr title),
           (''description'', JStr ''Build things''),
           (''jobLocation'', JObj [(''address'',
              JObj [(''addressLocality'', JStr ''Pune''), (''addressRegion'', JStr ''MH'')])]),
           (''employmentType'', JStr ''FULL_TIME''),
           (''hiringOrganization'', JObj [(''name'', JStr company)]),
           (''datePosted'', JStr ''2024-04-30'')]"

definition site_pages :: "(string \<times> string) list" where
  "site_pages =
     [(''https://www.ziprecruiter.in/jobs/search?page=1&q=aws'', ''aws-1''),
      (''https://www.ziprecruiter.in/jobs/search?page=2&q=aws'', ''aws-2''),
      (''https://www.ziprecruiter.in/jobs/search?page=1&q=python'', ''python-1''),
      (cloud_url, ''cloud-engineer''),
      (developer_url, ''developer'')]"

definition site :: env where
  "site =
     \<lparr>transport = (\<lambda>h m url.
        if m = TLS then (case map_of site_pages url of Some body \<Rightarrow> Inr body | None \<Rightarrow> Inl ''404'')
        else Inl ''connection refused''),
      open_error = (\<lambda>h name. None),
      write_error = (\<lambda>h name. None),
      now = (\<lambda>h. ''2024-05-01 12:00:00''),
      urlencode = (\<lambda>p q. ''page='' @ (if p = 1 then ''1'' else if p = 2 then ''2'' else ''0'') @ ''&q='' @ q),
      next_page_text = map_of [(''aws-1'', ''2'')],
      py_int = map_of [(''1'', 1), (''2'', 2)],
      job_list_titles = (\<lambda>r.
        if r = ''aws-1'' \<or> r = ''aws-2'' then [Some cloud_url]
        else if r = ''python-1'' then [Some developer_url] else []),
      ld_json_text = map_of [(''cloud-engineer'', ''{cloud}''), (''developer'', ''{developer}'')],
      reference_id = (\<lambda>r. ''REF-1''),
      json_loads = (\<lambda>t.
        if t = ''{cloud}'' then Inr (job_posting ''Cloud Engineer'' ''Acme'')
        else if t = ''{developer}'' then Inr (job_posting ''Developer'' ''Initech'')
        else Inl (JSONDecodeError ''Expecting value'')),
      html_text = (\<lambda>j. case j of JStr t \<Rightarrow> Inr t | _ \<Rightarrow> Inl (TypeError ''expected a string''))\<rparr>"

definition zip_scraper :: scraper where
  "zip_scraper =
     \<lparr>base_url = ''https://www.ziprecruiter.in'', output_filename = ''jobs.csv'',
      csv_writer = \<lparr>filename = ''jobs.csv'', fieldnames = job_fieldnames\<rparr>\<rparr>"

definition start :: state where
  "start = \<lparr>job_links = [], logged = [], files = Map.empty, history = [], visited = []\<rparr>"

text \<open>A world whose TLS client fails, so that the second client answers.\<close>

definition fallback_site :: env where
  "fallback_site =
     site\<lparr>transport := (\<lambda>h m url.
        case m of TLS \<Rightarrow> Inl ''handshake failed'' | Aiohttp \<Rightarrow> Inr ''<html>'' | Httpx \<Rightarrow> Inr ''<other>'')\<rparr>"

text \<open>Worlds in which no client delivers a body: every client refuses, or two time out
  and the third answers with an empty body.\<close>

definition refusing_site :: env where
  "refusing_site = site\<lparr>transport := (\<lambda>h m url. Inl ''connection refused'')\<rparr>"

definition timing_out_site :: env where
  "timing_out_site = site\<lparr>transport := (\<lambda>h m url. if m = Httpx then Inr [] else Inl ''timed out'')\<rparr>"

text \<open>A world whose first listing page links to itself when it is loaded first, and has
  no next-page link when it is loaded again.\<close>

definition looping_site :: env where
  "looping_site =
     site\<lparr>transport := (\<lambda>h m url. if h = [] then Inr ''first load'' else Inr ''second load''),
          next_page_text := map_of [(''first load'', ''1'')],
          job_list_titles := (\<lambda>r. [Some cloud_url])\<rparr>"

text \<open>A world in which no client reaches the page of the first job.\<close>

definition down_site :: env where
  "down_site =
     site\<lparr>transport := (\<lambda>h m url. if url = cloud_url then Inl ''timed out'' else transport site h m url)\<rparr>"

text \<open>Worlds whose file system fails: the disk is full once the header is written (the
  first opening of a file succeeds, every later one is refused); the first opening
  only is refused; the header cannot be written into the file just created.\<close>

definition full_disk_site :: env where
  "full_disk_site =
     site\<lparr>open_error := (\<lambda>h name. if OpenFile name \<in> set h then Some ''No space left on device'' else None)\<rparr>"

definition flaky_disk_site :: env where
  "flaky_disk_site =
     site\<lparr>open_error := (\<lambda>h name. if OpenFile name \<in> set h then None else Some ''Device busy'')\<rparr>"

definition header_fails_site :: env where
  "header_fails_site =
     site\<lparr>write_error := (\<lambda>h name. if h = [OpenFile name] then Some ''No space left on device'' else None)\<rparr>"


section \<open>The fetcher\<close>

lemma fetch_method_eq: "fetch_method m = fetch_with m"
  by (cases m) (simp_all add: fetch_tls_def fetch_aiohttp_def fetch_httpx_def)

lemma history_logger [simp]: "history (logger x s) = history s"
  by (simp add: logger_def)

lemma attempt_Cons_Suc:
  "attempt e h url (m # ms) (Suc j) = attempt e (h @ [Request m url]) url ms j"
  by (simp add: attempt_def requests_def)

lemma attempt_Cons_0: "attempt e h url (m # ms) 0 = transport e h m url"
  by (simp add: attempt_def requests_def)

lemma requests_Cons_Suc: "requests url (m # ms) (Suc k) = Request m url # requests url ms k"
  by (simp add: requests_def)

lemma history_fetch_method:
  "history (snd (fetch_method m e url s)) = history s @ [Request m url]"
  by (simp add: fetch_method_eq fetch_with_def Let_def split: sum.splits)

lemma fetch_loop_skip:
  assumes "\<not> nonempty_body (transport e (history s) m url)"
  shows "fetch_loop e url (m # ms) s = fetch_loop e url ms (snd (fetch_method m e url s))"
  using assms
  by (cases "transport e (history s) m url")
     (auto simp: fetch_method_eq fetch_with_def Let_def)

text \<open>
  The loop over any list of methods: when the \<open>k\<close>-th method is the first to answer
  with a non-empty body, that body is returned and exactly the first \<open>k + 1\<close> methods
  have been called.
\<close>

lemma fetch_loop_first:
  "k < length ms \<Longrightarrow> nonempty_body (attempt e (history s) url ms k) \<Longrightarrow>
   \<forall>j<k. \<not> nonempty_body (attempt e (history s) url ms j) \<Longrightarrow>
   \<exists>body. attempt e (history s) url ms k = Inr body \<and> body \<noteq> [] \<and>
     fst (fetch_loop e url ms s) = Inr body \<and>
     history (snd (fetch_loop e url ms s)) = history s @ requests url ms (Suc k)"
proof (induction ms arbitrary: s k)
  case Nil
  then show ?case by simp
next
  case (Cons m ms)
  show ?case
  proof (cases k)
    case 0
    with Cons.prems(2) obtain body where "transport e (history s) m url = Inr body" "body \<noteq> []"
      by (cases "transport e (history s) m url") (auto simp: attempt_Cons_0)
    with 0 show ?thesis
      by (simp add: attempt_Cons_0 fetch_method_eq fetch_with_def requests_def)
  next
    case (Suc k')
    let ?s1 = "snd (fetch_method m e url s)"
    from Cons.prems(3) Suc have "\<not> nonempty_body (attempt e (history s) url (m # ms) 0)"
      by simp
    then have skip: "fetch_loop e url (m # ms) s = fetch_loop e url ms ?s1"
      by (simp add: attempt_Cons_0 fetch_loop_skip del: fetch_loop.simps)
    have a: "k' < length ms" using Cons.prems(1) Suc by simp
    have b: "nonempty_body (attempt e (history ?s1) url ms k')"
      using Cons.prems(2) Suc by (simp add: history_fetch_method attempt_Cons_Suc)
    have c: "\<forall>j<k'. \<not> nonempty_body (attempt e (history ?s1) url ms j)"
      using Cons.prems(3) Suc by (auto simp: history_fetch_method attempt_Cons_Suc [symmetric])
    from Cons.IH [OF a b c] show ?thesis
      using Suc
      by (simp add: skip history_fetch_method attempt_Cons_Suc requests_Cons_Suc
            del: fetch_loop.simps)
  qed
qed

text \<open>
  Claim C1. \<^verbatim>\<open>HTTPClient.fetch\<close> tries the TLS client, aiohttp and httpx in this order.
  When the \<open>k\<close>-th of them is the first whose answer is a non-empty body, \<open>fetch\<close>
  returns that body, and the requests it has made are those of the first \<open>k + 1\<close>
  clients and no more: no client after the successful one is called.
\<close>

theorem fetch_returns_first_nonempty:
  assumes "k < length fetch_order"
    and "nonempty_body (attempt e (history s) url fetch_order k)"
    and "\<forall>j<k. \<not> nonempty_body (attempt e (history s) url fetch_order j)"
  shows "\<exists>body. attempt e (history s) url fetch_order k = Inr body \<and> body \<noteq> [] \<and>
           fst (fetch e url s) = Inr body \<and>
           history (snd (fetch e url s)) = history s @ requests url fetch_order (Suc k)"
  using fetch_loop_first [of k fetch_order e "logger (FetchingURL (last_segment url)) s" url] assms
  by (simp add: fetch_def)

theorem fetch_returns_first_nonempty_witness:
  "(1::nat) < length fetch_order \<and>
   nonempty_body (attempt fallback_site (history start) cloud_url fetch_order 1) \<and>
   \<not> nonempty_body (attempt fallback_site (history start) cloud_url fetch_order 0) \<and>
   fst (fetch fallback_site cloud_url start) = Inr ''<html>'' \<and>
   history (snd (fetch fallback_site cloud_url start)) =
     [Request TLS cloud_url, Request Aiohttp cloud_url]"
proof -
  have a: "(1::nat) < length fetch_order" by (simp add: fetch_order_def)
  have b: "nonempty_body (attempt fallback_site (history start) cloud_url fetch_order 1)"
    by (simp add: attempt_def fetch_order_def fallback_site_def requests_def)
  have c: "\<forall>j<1::nat. \<not> nonempty_body (attempt fallback_site (history start) cloud_url fetch_order j)"
    by (simp add: attempt_def fetch_order_def fallback_site_def requests_def)
  from fetch_returns_first_nonempty [OF a b c] a b c show ?thesis
    by (simp add: attempt_def fetch_order_def fallback_site_def requests_def start_def)
qed

text \<open>When no method answers with a non-empty body, all are called and the loop is left.\<close>

lemma fetch_loop_none:
  "\<forall>j<length ms. \<not> nonempty_body (attempt e (history s) url ms j) \<Longrightarrow>
     fst (fetch_loop e url ms s) = Inl (Exception ''All fetch methods failed'') \<and>
     history (snd (fetch_loop e url ms s)) = history s @ requests url ms (length ms)"
proof (induction ms arbitrary: s)
  case Nil
  then show ?case by (simp add: requests_def)
next
  case (Cons m ms)
  let ?s1 = "snd (fetch_method m e url s)"
  from Cons.prems have "\<not> nonempty_body (attempt e (history s) url (m # ms) 0)"
    by simp
  then have skip: "fetch_loop e url (m # ms) s = fetch_loop e url ms ?s1"
    by (simp add: attempt_Cons_0 fetch_loop_skip del: fetch_loop.simps)
  have c: "\<forall>j<length ms. \<not> nonempty_body (attempt e (history ?s1) url ms j)"
    using Cons.prems by (auto simp: history_fetch_method attempt_Cons_Suc [symmetric])
  from Cons.IH [OF c] show ?case
    by (simp add: skip history_fetch_method requests_Cons_Suc del: fetch_loop.simps)
qed

lemma logged_fetch_loop: "set (logged s) \<subseteq> set (logged (snd (fetch_loop e url ms s)))"
proof (induction ms arbitrary: s)
  case Nil
  then show ?case by simp
next
  case (Cons m ms)
  have "set (logged s) \<subseteq> set (logged (snd (fetch_method m e url s)))"
    by (auto simp: fetch_method_eq fetch_with_def Let_def logger_def split: sum.splits)
  with Cons.IH show ?case
    by (fastforce simp: logger_def split: prod.splits sum.splits option.splits)
qed

lemma fetch_loop_logs_failures:
  "\<forall>j<length ms. \<not> nonempty_body (attempt e (history s) url ms j) \<Longrightarrow>
   j < length ms \<Longrightarrow> attempt e (history s) url ms j = Inl msg \<Longrightarrow>
   ClientError (ms ! j) msg \<in> set (logged (snd (fetch_loop e url ms s)))"
proof (induction ms arbitrary: s j)
  case Nil
  then show ?case by simp
next
  case (Cons m ms)
  let ?s1 = "snd (fetch_method m e url s)"
  from Cons.prems(1) have "\<not> nonempty_body (attempt e (history s) url (m # ms) 0)"
    by simp
  then have skip: "fetch_loop e url (m # ms) s = fetch_loop e url ms ?s1"
    by (simp add: attempt_Cons_0 fetch_loop_skip del: fetch_loop.simps)
  have c: "\<forall>j<length ms. \<not> nonempty_body (attempt e (history ?s1) url ms j)"
    using Cons.prems(1) by (auto simp: history_fetch_method attempt_Cons_Suc [symmetric])
  show ?case
  proof (cases j)
    case 0
    with Cons.prems(3) have "transport e (history s) m url = Inl msg"
      by (simp add: attempt_Cons_0)
    then have "ClientError m msg \<in> set (logged ?s1)"
      by (simp add: fetch_method_eq fetch_with_def logger_def)
    with logged_fetch_loop [of ?s1 e url ms] 0 show ?thesis
      by (auto simp: skip simp del: fetch_loop.simps)
  next
    case (Suc j')
    with Cons.prems have "j' < length ms" "attempt e (history ?s1) url ms j' = Inl msg"
      by (simp_all add: history_fetch_method attempt_Cons_Suc)
    from Cons.IH [OF c this] Suc show ?thesis
      by (simp add: skip del: fetch_loop.simps)
  qed
qed

text \<open>
  Claim C4, as amended. When no client answers with a non-empty body, \<open>fetch\<close> calls
  all three and raises the plain exception with the fixed message
  \<^verbatim>\<open>All fetch methods failed\<close>: there is no body. The failures of the clients are not
  in the exception; each exception of a client is logged by that client.
\<close>

theorem fetch_raises_when_all_fail:
  assumes "\<forall>j<length fetch_order. \<not> nonempty_body (attempt e (history s) url fetch_order j)"
  shows "fst (fetch e url s) = Inl (Exception ''All fetch methods failed'') \<and>
         history (snd (fetch e url s)) = history s @ requests url fetch_order (length fetch_order) \<and>
         (\<forall>j<length fetch_order. \<forall>msg. attempt e (history s) url fetch_order j = Inl msg \<longrightarrow>
            ClientError (fetch_order ! j) msg \<in> set (logged (snd (fetch e url s))))"
proof -
  let ?s0 = "logger (FetchingURL (last_segment url)) s"
  have a: "\<forall>j<length fetch_order. \<not> nonempty_body (attempt e (history ?s0) url fetch_order j)"
    using assms by simp
  from fetch_loop_none [OF a] fetch_loop_logs_failures [OF a] show ?thesis
    by (simp add: fetch_def)
qed

theorem fetch_raises_when_all_fail_witness:
  "\<not> nonempty_body (attempt timing_out_site (history start) cloud_url fetch_order 0) \<and>
   \<not> nonempty_body (attempt timing_out_site (history start) cloud_url fetch_order 1) \<and>
   \<not> nonempty_body (attempt timing_out_site (history start) cloud_url fetch_order 2) \<and>
   fst (fetch timing_out_site cloud_url start) = Inl (Exception ''All fetch methods failed'') \<and>
   history (snd (fetch timing_out_site cloud_url start)) =
     [Request TLS cloud_url, Request Aiohttp cloud_url, Request Httpx cloud_url] \<and>
   ClientError TLS ''timed out'' \<in> set (logged (snd (fetch timing_out_site cloud_url start)))"
proof -
  have n0: "\<not> nonempty_body (attempt timing_out_site (history start) cloud_url fetch_order 0)"
    and n1: "\<not> nonempty_body (attempt timing_out_site (history start) cloud_url fetch_order 1)"
    and n2: "\<not> nonempty_body (attempt timing_out_site (history start) cloud_url fetch_order 2)"
    and b: "attempt timing_out_site (history start) cloud_url fetch_order 0 = Inl ''timed out''"
    by (simp_all add: attempt_def fetch_order_def timing_out_site_def requests_def)
  have a: "\<forall>j<length fetch_order.
      \<not> nonempty_body (attempt timing_out_site (history start) cloud_url fetch_order j)"
  proof (intro allI impI)
    fix j :: nat
    assume "j < length fetch_order"
    then have "j = 0 \<or> j = 1 \<or> j = 2"
      by (simp add: fetch_order_def; arith)
    with n0 n1 n2
    show "\<not> nonempty_body (attempt timing_out_site (history start) cloud_url fetch_order j)"
      by (elim disjE) simp_all
  qed
  have l: "0 < length fetch_order" "fetch_order ! 0 = TLS"
    by (simp_all add: fetch_order_def)
  from fetch_raises_when_all_fail [OF a] b l
  have "fst (fetch timing_out_site cloud_url start) = Inl (Exception ''All fetch methods failed'')"
    and "history (snd (fetch timing_out_site cloud_url start)) =
           history start @ requests cloud_url fetch_order (length fetch_order)"
    and "ClientError TLS ''timed out'' \<in> set (logged (snd (fetch timing_out_site cloud_url start)))"
    by auto
  with n0 n1 n2 show ?thesis
    by (simp add: fetch_order_def requests_def start_def)
qed

text \<open>
  Claim C4, as stated, fails: two worlds whose clients fail in different ways raise
  the same exception, so it carries none of the failures.
\<close>

theorem fetch_error_carries_no_failures:
  "fst (fetch refusing_site cloud_url start) = fst (fetch timing_out_site cloud_url start) \<and>
   fst (fetch refusing_site cloud_url start) = Inl (Exception ''All fetch methods failed'') \<and>
   attempt refusing_site (history start) cloud_url fetch_order 0 = Inl ''connection refused'' \<and>
   attempt timing_out_site (history start) cloud_url fetch_order 0 = Inl ''timed out''"
  by (simp add: fetch_def fetch_order_def fetch_tls_def fetch_aiohttp_def fetch_httpx_def
        fetch_with_def refusing_site_def timing_out_site_def attempt_def requests_def)

section \<open>The crawl\<close>

lemma logger_simps [simp]:
  "job_links (logger x s) = job_links s"
  "visited (logger x s) = visited s"
  "files (logger x s) = files s"
  "logged (logger x s) = logged s @ [x]"
  by (simp_all add: logger_def)

lemma fetch_method_frame [simp]:
  "job_links (snd (fetch_method m e url s)) = job_links s"
  "visited (snd (fetch_method m e url s)) = visited s"
  "files (snd (fetch_method m e url s)) = files s"
  by (simp_all add: fetch_method_eq fetch_with_def Let_def split: sum.splits)

lemma fetch_loop_frame:
  "job_links (snd (fetch_loop e url ms s)) = job_links s \<and>
   visited (snd (fetch_loop e url ms s)) = visited s \<and>
   files (snd (fetch_loop e url ms s)) = files s"
proof (induction ms arbitrary: s)
  case Nil
  then show ?case by simp
next
  case (Cons m ms)
  obtain r s1 where f: "fetch_method m e url s = (r, s1)"
    by (cases "fetch_method m e url s")
  from fetch_method_frame [of m e url s] f
  have "job_links s1 = job_links s" "visited s1 = visited s" "files s1 = files s"
    by simp_all
  with Cons.IH f show ?case
    by (auto split: sum.splits option.splits)
qed

lemma fetch_frame [simp]:
  "job_links (snd (fetch e url s)) = job_links s"
  "visited (snd (fetch e url s)) = visited s"
  "files (snd (fetch e url s)) = files s"
  using fetch_loop_frame [of e url fetch_order "logger (FetchingURL (last_segment url)) s"]
  by (simp_all add: fetch_def)

lemma get_page_frame:
  assumes "get_page e self p q s = (r, s1)"
  shows "job_links s1 = job_links s" "visited s1 = visited s" "files s1 = files s"
  using assms fetch_frame [of e "base_url self @ ''/jobs/search?'' @ urlencode e p q" s]
  by (simp_all add: get_page_def)

lemma links_except_frame:
  assumes "links_except p r x s = (res, s')"
  shows "job_links s' = job_links s" "visited s' = visited s" "files s' = files s"
  using assms by (auto simp: links_except_def Let_def split: option.splits if_splits)

lemma extend_links_Inr:
  assumes "extend_links p links s = (Inr u, s')"
  shows "visited s' = visited s" "files s' = files s"
    "\<exists>hrefs. those links = Some hrefs \<and> job_links s' = job_links s @ hrefs"
  using assms by (auto simp: extend_links_def split: option.splits if_splits)

lemma extend_links_Inl:
  assumes "extend_links p links s = (Inl x, s')"
  shows "s' = s" "those links = None"
  using assms by (auto simp: extend_links_def split: option.splits if_splits)

lemma follows_hd: "follows e k (v # vs) \<Longrightarrow> fst v = k"
  by (cases vs) auto

lemma follows_step:
  "vs = [] \<or> follows e k vs \<and> token_of e r = Some k \<Longrightarrow> follows e p ((p, r) # vs)"
  by (cases vs) (auto dest: follows_hd)

lemma follows_nonempty: "follows e p vs \<Longrightarrow> vs \<noteq> []"
  by (cases vs) auto

text \<open>
  A walk has visited a chain of pages, each named by the next-page link of the one
  before; it has stopped on a page that names none, unless the interpreter has cut the
  recursion; and it has appended the links of each page visited, in this order, to
  \<^verbatim>\<open>job_links\<close>. It writes no file.
\<close>

lemma get_links_walk:
  "get_links e self q n p s = (res, s') \<Longrightarrow>
   \<exists>vs. visited s' = visited s @ vs \<and> length vs \<le> n \<and>
        (0 < n \<longrightarrow> follows e p vs \<and> (length vs < n \<longrightarrow> token_of e (snd (last vs)) = None)) \<and>
        job_links s' = job_links s @ concat (map (page_links e) vs) \<and> files s' = files s"
proof (induction n arbitrary: p s res s')
  case 0
  then show ?case by simp
next
  case (Suc n)
  obtain r s1 where gp: "get_page e self p q s = (r, s1)"
    by (cases "get_page e self p q s")
  note fr = get_page_frame [OF gp]
  have single: ?case
    if "visited s' = visited s @ [(p, v)]" "token_of e v = None"
      "job_links s' = job_links s @ page_links e (p, v)" "files s' = files s" for v
    using that by (intro exI [of _ "[(p, v)]"]) simp
  show ?case
  proof (cases r)
    case (Inl x)
    with Suc.prems gp
    have "links_except p None x (s1\<lparr>visited := visited s1 @ [(p, None)]\<rparr>) = (res, s')"
      by simp
    from links_except_frame [OF this] fr show ?thesis
      by (intro single [of None]) simp_all
  next
    case (Inr response)
    note rI = Inr
    let ?s2 = "s1\<lparr>visited := visited s1 @ [(p, Some response)]\<rparr>"
    show ?thesis
    proof (cases "response = []")
      case True
      with Suc.prems gp rI have "s' = logger (NoResponse p) ?s2"
        by simp
      with fr True show ?thesis
        by (intro single [of "Some response"]) simp_all
    next
      case False
      obtain r3 s3 where ex: "extend_links p (job_list_titles e response) ?s2 = (r3, s3)"
        by (cases "extend_links p (job_list_titles e response) ?s2")
      show ?thesis
      proof (cases r3)
        case (Inl x)
        with Suc.prems gp rI False ex
        have le: "links_except p (Some response) x s3 = (res, s')"
          by simp
        from extend_links_Inl [OF ex [unfolded Inl]] links_except_frame [OF le] fr False
        show ?thesis
          by (intro single [of "Some response"]) simp_all
      next
        case (Inr u)
        note u = Inr
        from extend_links_Inr [OF ex [unfolded u]] obtain hrefs
          where e3: "visited s3 = visited ?s2" "files s3 = files ?s2"
            "those (job_list_titles e response) = Some hrefs"
            "job_links s3 = job_links ?s2 @ hrefs"
          by auto
        consider (stop) "next_page_text e response = None"
          | (bad) tok where "next_page_text e response = Some tok" "py_int e tok = None"
          | (more) tok k where "next_page_text e response = Some tok" "py_int e tok = Some k"
          by (cases "next_page_text e response") auto
        then show ?thesis
        proof cases
          case stop
          with Suc.prems gp rI False ex u have "s' = logger NoMorePages s3"
            by simp
          with e3 fr False stop show ?thesis
            by (intro single [of "Some response"]) simp_all
        next
          case bad
          with Suc.prems gp rI False ex u
          have le: "links_except p (Some response) (ValueError tok) s3 = (res, s')"
            by simp
          from links_except_frame [OF le] e3 fr False bad show ?thesis
            by (intro single [of "Some response"]) simp_all
        next
          case more
          have tok: "token_of e (Some response) = Some k"
            using more e3 False by simp
          obtain r4 s4 where rec: "get_links e self q n k s3 = (r4, s4)"
            by (cases "get_links e self q n k s3")
          from Suc.IH [OF rec] obtain vs where
            vs: "visited s4 = visited s3 @ vs" "length vs \<le> n"
              "0 < n \<longrightarrow> follows e k vs \<and> (length vs < n \<longrightarrow> token_of e (snd (last vs)) = None)"
              "job_links s4 = job_links s3 @ concat (map (page_links e) vs)" "files s4 = files s3"
            by auto
          have fin: "job_links s' = job_links s4 \<and> visited s' = visited s4 \<and> files s' = files s4"
          proof (cases r4)
            case (Inl x)
            with Suc.prems gp rI False ex u more rec
            have le: "links_except p (Some response) x s4 = (res, s')"
              by simp
            from links_except_frame [OF le] show ?thesis by simp
          next
            case (Inr u')
            with Suc.prems gp rI False ex u more rec show ?thesis
              by simp
          qed
          let ?ws = "(p, Some response) # vs"
          have "visited s' = visited s @ ?ws"
            using fin vs e3 fr by simp
          moreover have "length ?ws \<le> Suc n"
            using vs(2) by simp
          moreover have f: "follows e p ?ws"
          proof (rule follows_step)
            show "vs = [] \<or> follows e k vs \<and> token_of e (Some response) = Some k"
              using vs(2,3) tok by (cases n) auto
          qed
          moreover have "token_of e (snd (last ?ws)) = None" if "length ?ws < Suc n"
          proof -
            from that have "length vs < n" "0 < n" by simp_all
            with vs(3) have "follows e k vs" "token_of e (snd (last vs)) = None"
              by simp_all
            then show ?thesis
              by (simp add: follows_nonempty)
          qed
          moreover have "job_links s' = job_links s @ concat (map (page_links e) ?ws)"
            using fin vs e3 fr False by simp
          moreover have "files s' = files s"
            using fin vs e3 fr by simp
          ultimately show ?thesis by blast
        qed
      qed
    qed
  qed
qed

lemma follows_sorted:
  "follows e p vs \<Longrightarrow> tokens_increase e vs \<Longrightarrow> sorted_wrt (<) (map fst vs)"
proof (induction e p vs rule: follows.induct)
  case (1 e p)
  then show ?case by simp
next
  case (2 e p v)
  then show ?case by simp
next
  case (3 e p v w vs)
  then have "fst v < fst w" "sorted_wrt (<) (map fst (w # vs))"
    by (simp_all add: tokens_increase_def)
  then show ?case
    by (simp only: list.map sorted_wrt2 [OF transp_on_less, of "fst v" "fst w" "map fst vs"])
qed

lemma walk_of_append: "visited s' = visited s @ vs \<Longrightarrow> walk_of s s' = vs"
  by (simp add: walk_of_def)

lemma get_links_no_next:
  assumes "fst (get_page e self p q s) = Inr r" and "next_page_text e r = None"
  shows "\<exists>s'. get_links e self q (Suc n) p s = (Inr (), s') \<and> walk_of s s' = [(p, Some r)]"
proof -
  obtain s1 where gp: "get_page e self p q s = (Inr r, s1)"
    using assms(1) by (cases "get_page e self p q s") auto
  note fr = get_page_frame [OF gp]
  let ?s2 = "s1\<lparr>visited := visited s1 @ [(p, Some r)]\<rparr>"
  obtain r3 s3 where ex: "extend_links p (job_list_titles e r) ?s2 = (r3, s3)"
    by (cases "extend_links p (job_list_titles e r) ?s2")
  have v3: "visited s3 = visited ?s2"
    using ex extend_links_Inr(1) [of p "job_list_titles e r" ?s2 _ s3]
      extend_links_Inl(1) [of p "job_list_titles e r" ?s2 _ s3]
    by (cases r3) auto
  show ?thesis
    using gp assms(2) ex v3 fr
    by (cases r3) (auto simp: walk_of_def links_except_def Let_def)
qed

text \<open>
  Claim C3, as amended. An activation of \<^verbatim>\<open>get_links\<close> on a page without a next-page
  link returns without visiting another page. A walk visits the page it starts at and
  then, in order, the pages named by the next-page links, and it goes on until a page
  names no page to go on to (no next-page link, a text that is no integer, a link
  without \<^verbatim>\<open>href\<close>, a failed fetch), unless the recursion limit is reached first. The
  page numbers are strictly increasing, and none is visited twice, when every
  next-page link followed names a page greater than the one it stands on. The source
  does not compare the two numbers.
\<close>

theorem pagination_walk:
  "(fst (get_page e self p q s) = Inr r \<longrightarrow> next_page_text e r = None \<longrightarrow>
      (\<exists>s1. get_links e self q (Suc n) p s = (Inr (), s1) \<and> walk_of s s1 = [(p, Some r)])) \<and>
   (get_links e self q (Suc n) p s = (res, s') \<longrightarrow>
      follows e p (walk_of s s') \<and>
      length (walk_of s s') \<le> Suc n \<and>
      (length (walk_of s s') \<le> n \<longrightarrow> token_of e (snd (last (walk_of s s'))) = None) \<and>
      (tokens_increase e (walk_of s s') \<longrightarrow>
         sorted_wrt (<) (map fst (walk_of s s')) \<and> distinct (map fst (walk_of s s'))))"
proof (intro conjI impI)
  assume "fst (get_page e self p q s) = Inr r" "next_page_text e r = None"
  then show "\<exists>s1. get_links e self q (Suc n) p s = (Inr (), s1) \<and> walk_of s s1 = [(p, Some r)]"
    by (rule get_links_no_next)
next
  assume g: "get_links e self q (Suc n) p s = (res, s')"
  from get_links_walk [OF g] obtain vs where "visited s' = visited s @ vs"
    and l: "length vs \<le> Suc n" and f: "follows e p vs"
    and t: "length vs < Suc n \<longrightarrow> token_of e (snd (last vs)) = None"
    by auto
  then have w: "walk_of s s' = vs"
    by (simp add: walk_of_append)
  from f w show f': "follows e p (walk_of s s')" by simp
  from l w show "length (walk_of s s') \<le> Suc n" by simp
  {
    assume "length (walk_of s s') \<le> n"
    with t w show "token_of e (snd (last (walk_of s s'))) = None" by simp
  }
  assume "tokens_increase e (walk_of s s')"
  with f' have st: "sorted_wrt (<) (map fst (walk_of s s'))"
    by (rule follows_sorted)
  then show "sorted_wrt (<) (map fst (walk_of s s'))" .
  from st show "distinct (map fst (walk_of s s'))"
    by (simp add: strict_sorted_iff)
qed

theorem pagination_walk_witness:
  "fst (get_page site zip_scraper 2 ''aws'' start) = Inr ''aws-2'' \<and>
   next_page_text site ''aws-2'' = None \<and>
   (case get_links site zip_scraper ''aws'' (Suc 0) 2 start of (r, s1) \<Rightarrow> (r, walk_of start s1))
     = (Inr (), [(2, Some ''aws-2'')]) \<and>
   walk_of start (snd (get_links site zip_scraper ''aws'' (Suc 4) 1 start))
     = [(1, Some ''aws-1''), (2, Some ''aws-2'')] \<and>
   follows site 1 [(1, Some ''aws-1''), (2, Some ''aws-2'')] \<and>
   length [(1::int, Some ''aws-1''), (2, Some ''aws-2'')] \<le> 4 \<and>
   token_of site (snd (last [(1::int, Some ''aws-1''), (2, Some ''aws-2'')])) = None \<and>
   tokens_increase site [(1, Some ''aws-1''), (2, Some ''aws-2'')] \<and>
   sorted_wrt (<) (map fst [(1::int, Some ''aws-1''), (2, Some ''aws-2'')]) \<and>
   distinct (map fst [(1::int, Some ''aws-1''), (2, Some ''aws-2'')])"
proof -
  have a: "fst (get_page site zip_scraper 2 ''aws'' start) = Inr ''aws-2''"
    by code_simp
  have b: "next_page_text site ''aws-2'' = None"
    by code_simp
  obtain res s' where g: "get_links site zip_scraper ''aws'' (Suc 4) 1 start = (res, s')"
    by (cases "get_links site zip_scraper ''aws'' (Suc 4) 1 start")
  have "walk_of start (snd (get_links site zip_scraper ''aws'' (Suc 4) 1 start))
        = [(1, Some ''aws-1''), (2, Some ''aws-2'')]"
    by code_simp
  with g have w: "walk_of start s' = [(1, Some ''aws-1''), (2, Some ''aws-2'')]"
    by simp
  have t: "tokens_increase site [(1, Some ''aws-1''), (2, Some ''aws-2'')]"
    by code_simp
  from pagination_walk [where e = site and self = zip_scraper and p = 2 and q = "''aws''"
      and s = start and r = "''aws-2''" and n = 0, THEN conjunct1, rule_format, OF a b]
  obtain s1 where "get_links site zip_scraper ''aws'' (Suc 0) 2 start = (Inr (), s1)"
    "walk_of start s1 = [(2, Some ''aws-2'')]"
    by blast
  then have c: "(case get_links site zip_scraper ''aws'' (Suc 0) 2 start of (r, s1) \<Rightarrow> (r, walk_of start s1))
             = (Inr (), [(2, Some ''aws-2'')])"
    by (simp del: get_links.simps)
  from pagination_walk [where e = site and self = zip_scraper and p = 1 and q = "''aws''"
      and s = start and n = 4 and res = res and s' = s'] g w t
  have d: "follows site 1 [(1, Some ''aws-1''), (2, Some ''aws-2'')]"
    "token_of site (snd (last [(1::int, Some ''aws-1''), (2, Some ''aws-2'')])) = None"
    "sorted_wrt (<) (map fst [(1::int, Some ''aws-1''), (2, Some ''aws-2'')])"
    "distinct (map fst [(1::int, Some ''aws-1''), (2, Some ''aws-2'')])"
    by (simp_all del: get_links.simps)
  from a b c d g w t show ?thesis
    by (simp del: get_links.simps)
qed

text \<open>
  Claim C3, as stated, fails: on a site whose first page links to itself once, the walk
  visits page 1 twice and ends.
\<close>

theorem pagination_walk_repeats_page:
  "map fst (visited (snd (get_links looping_site zip_scraper ''aws'' 5 1 start))) = [1, 1] \<and>
   fst (get_links looping_site zip_scraper ''aws'' 5 1 start) = Inr () \<and>
   \<not> sorted_wrt (<) [1::int, 1] \<and> \<not> distinct [1::int, 1]"
  by code_simp

lemma load_links_result:
  assumes "load_links e self n q s = (Inr links, s')"
  shows "links = job_links s @ concat (map (page_links e) (walk_of s s')) \<and>
         job_links s' = links \<and> files s' = files s"
proof -
  let ?s0 = "logger StartLoadLinks s"
  from assms obtain s1 where g: "get_links e self q n 1 ?s0 = (Inr (), s1)"
    and l: "links = job_links s1" and s': "s' = logger (TotalLinks (length (job_links s1))) s1"
    by (auto simp: load_links_def split: sum.splits prod.splits)
  from get_links_walk [OF g] obtain vs where
    "visited s1 = visited ?s0 @ vs" "job_links s1 = job_links ?s0 @ concat (map (page_links e) vs)"
    "files s1 = files ?s0"
    by auto
  with l s' show ?thesis
    by (simp add: walk_of_def)
qed

text \<open>
  Claim C6, as amended. The crawl removes no duplicate: the list \<^verbatim>\<open>load_links\<close> returns
  is what \<^verbatim>\<open>job_links\<close> held before, followed by the links of every visited listing
  page in the order of the visits. It is free of duplicates exactly when these links
  are.
\<close>

theorem load_links_keeps_every_link:
  assumes "load_links e self n q s = (Inr links, s')"
  shows "links = job_links s @ concat (map (page_links e) (walk_of s s')) \<and>
         distinct links = distinct (job_links s @ concat (map (page_links e) (walk_of s s')))"
  using load_links_result [OF assms] by simp

theorem load_links_keeps_every_link_witness:
  "(case load_links site zip_scraper 5 ''python'' start of (r, s1) \<Rightarrow> (r, walk_of start s1))
     = (Inr [developer_url], [(1, Some ''python-1'')]) \<and>
   [developer_url] = job_links start @ concat (map (page_links site) [(1, Some ''python-1'')]) \<and>
   distinct [developer_url]"
proof -
  have ev: "(case load_links site zip_scraper 5 ''python'' start of (r, s1) \<Rightarrow> (r, walk_of start s1))
     = (Inr [developer_url], [(1, Some ''python-1'')])"
    by code_simp
  then obtain s' where l: "load_links site zip_scraper 5 ''python'' start = (Inr [developer_url], s')"
    and w: "walk_of start s' = [(1, Some ''python-1'')]"
    by (cases "load_links site zip_scraper 5 ''python'' start") auto
  have d: "distinct [developer_url]" by simp
  from load_links_keeps_every_link [OF l] w d ev show ?thesis
    by simp
qed

text \<open>
  Claim C6, as stated, fails: the two listing pages for aws carry the same link, and
  the list returned holds it twice.
\<close>

theorem load_links_repeats_link:
  "fst (load_links site zip_scraper 5 ''aws'' start) = Inr [cloud_url, cloud_url] \<and>
   \<not> distinct [cloud_url, cloud_url]"
  by code_simp

text \<open>
  Claim C10. When the fetch of a listing page raises, the local \<^verbatim>\<open>response\<close> of that
  activation of \<^verbatim>\<open>get_links\<close> was never assigned: its handler logs the error of the
  page and then fails with the unbound-variable error, which leaves the activation.
  When this happens on page 1, \<^verbatim>\<open>load_links\<close> raises this error and returns no list.
\<close>

theorem crawl_handler_unbound_response:
  "(fst (get_page e self p q s) = Inl x \<longrightarrow>
      (\<exists>s1. get_links e self q (Suc n) p s = (Inl (UnboundLocalError ''response''), s1) \<and>
            job_links s1 = job_links s \<and>
            logged s1 = logged (snd (get_page e self p q s)) @ [ErrorParsingPage p x])) \<and>
   (fst (get_page e self 1 q (logger StartLoadLinks s)) = Inl x \<longrightarrow>
      (\<exists>s1. load_links e self (Suc n) q s = (Inl (UnboundLocalError ''response''), s1)))"
proof (intro conjI impI)
  assume a: "fst (get_page e self p q s) = Inl x"
  then obtain s0 where gp: "get_page e self p q s = (Inl x, s0)"
    by (cases "get_page e self p q s") auto
  from get_page_frame [OF gp] gp
  show "\<exists>s1. get_links e self q (Suc n) p s = (Inl (UnboundLocalError ''response''), s1) \<and>
            job_links s1 = job_links s \<and>
            logged s1 = logged (snd (get_page e self p q s)) @ [ErrorParsingPage p x]"
    by (simp add: links_except_def logger_def)
next
  assume a: "fst (get_page e self 1 q (logger StartLoadLinks s)) = Inl x"
  then obtain s0 where gp: "get_page e self 1 q (logger StartLoadLinks s) = (Inl x, s0)"
    by (cases "get_page e self 1 q (logger StartLoadLinks s)") auto
  then show "\<exists>s1. load_links e self (Suc n) q s = (Inl (UnboundLocalError ''response''), s1)"
    by (simp add: load_links_def links_except_def)
qed

theorem crawl_handler_unbound_response_witness:
  "fst (get_page refusing_site zip_scraper 1 ''aws'' (logger StartLoadLinks start))
     = Inl (Exception ''All fetch methods failed'') \<and>
   fst (load_links refusing_site zip_scraper (Suc 0) ''aws'' start)
     = Inl (UnboundLocalError ''response'') \<and>
   fst (get_links refusing_site zip_scraper ''aws'' (Suc 0) 1 (logger StartLoadLinks start))
     = Inl (UnboundLocalError ''response'')"
proof -
  have a: "fst (get_page refusing_site zip_scraper 1 ''aws'' (logger StartLoadLinks start))
     = Inl (Exception ''All fetch methods failed'')"
    by code_simp
  from crawl_handler_unbound_response [where e = refusing_site and self = zip_scraper and q = "''aws''"
      and p = 1 and s = "logger StartLoadLinks start" and n = 0
      and x = "Exception ''All fetch methods failed''", THEN conjunct1, rule_format, OF a]
  have b: "fst (get_links refusing_site zip_scraper ''aws'' (Suc 0) 1 (logger StartLoadLinks start))
     = Inl (UnboundLocalError ''response'')"
    by (auto simp del: get_links.simps)
  from crawl_handler_unbound_response [where e = refusing_site and self = zip_scraper and q = "''aws''"
      and s = start and n = 0 and x = "Exception ''All fetch methods failed''",
      THEN conjunct2, rule_format, OF a]
  have c: "fst (load_links refusing_site zip_scraper (Suc 0) ''aws'' start)
     = Inl (UnboundLocalError ''response'')"
    by (auto simp del: get_links.simps)
  from a b c show ?thesis by (simp del: get_links.simps)
qed

section \<open>The CSV file\<close>

lemma initialize_file_existing:
  "files s (filename w) \<noteq> None \<Longrightarrow> initialize_file e w s = (Inr (), s)"
  by (auto simp: initialize_file_def)

lemma initialize_file_missing:
  assumes "files s (filename w) = None" and "open_error e (history s) (filename w) = None"
  shows "write_error e (history s @ [OpenFile (filename w)]) (filename w) = None \<Longrightarrow>
           fst (initialize_file e w s) = Inr () \<and>
           files (snd (initialize_file e w s)) (filename w) = Some [map JStr (fieldnames w)]"
    and "write_error e (history s @ [OpenFile (filename w)]) (filename w) = Some msg \<Longrightarrow>
           fst (initialize_file e w s) = Inl (OSError msg) \<and>
           files (snd (initialize_file e w s)) (filename w) = Some []"
  using assms by (simp_all add: initialize_file_def Let_def)

lemma initialize_file_Inr:
  assumes "initialize_file e w s = (Inr u, s1)"
  shows "files s1 (filename w) \<noteq> None"
    and "files s (filename w) = None \<Longrightarrow> files s1 (filename w) = Some [map JStr (fieldnames w)]"
    and "files s (filename w) \<noteq> None \<Longrightarrow> s1 = s"
  using assms by (auto simp: initialize_file_def Let_def split: if_splits option.splits)

lemma save_row_Inr:
  assumes "save_row e w d s = (Inr u, s1)"
  shows "\<exists>row. dict_to_list (fieldnames w) d = Inr row \<and>
           files s1 (filename w)
             = Some ((case files s (filename w) of None \<Rightarrow> [] | Some rs \<Rightarrow> rs) @ [row])"
  using assms by (auto simp: save_row_def Let_def split: option.splits sum.splits)

text \<open>
  Claim C9, as amended. The header is written only when the store is missing at the
  construction of the writer. Over a missing store that can be opened and written, the
  construction succeeds and leaves a store that holds the header row and nothing
  else; when the header cannot be written, it raises and leaves the empty store that
  \<^verbatim>\<open>open\<close> created. Over a store that exists, whatever it holds, the construction changes
  nothing: constructing the writer again is the identity, no header is written twice,
  and a store without a header never gets one. \<^verbatim>\<open>save_row\<close> needs the writer, and puts
  its row after what the store holds.
\<close>

theorem csv_writer_initializes_once:
  "(files s name = None \<longrightarrow> open_error e (history s) name = None \<longrightarrow>
      (write_error e (history s @ [OpenFile name]) name = None \<longrightarrow>
         fst (CSVWriter e name cols s) = Inr \<lparr>filename = name, fieldnames = cols\<rparr> \<and>
         files (snd (CSVWriter e name cols s)) name = Some [map JStr cols]) \<and>
      (write_error e (history s @ [OpenFile name]) name = Some msg \<longrightarrow>
         fst (CSVWriter e name cols s) = Inl (OSError msg) \<and>
         files (snd (CSVWriter e name cols s)) name = Some [])) \<and>
   (files s name \<noteq> None \<longrightarrow>
      CSVWriter e name cols s = (Inr \<lparr>filename = name, fieldnames = cols\<rparr>, s)) \<and>
   (CSVWriter e name cols s = (Inr w, s1) \<longrightarrow>
      files s1 name \<noteq> None \<and> CSVWriter e name cols s1 = (Inr w, s1) \<and>
      (files s name = None \<longrightarrow> files s1 name = Some [map JStr cols])) \<and>
   (save_row e w d s = (Inr (), s1) \<longrightarrow>
      (\<exists>row. dict_to_list (fieldnames w) d = Inr row \<and>
         files s1 (filename w)
           = Some ((case files s (filename w) of None \<Rightarrow> [] | Some rs \<Rightarrow> rs) @ [row])))"
proof -
  let ?w = "\<lparr>filename = name, fieldnames = cols\<rparr>"
  have fst_snd: "fst (CSVWriter e name cols s) = (case fst (initialize_file e ?w s) of
      Inl x \<Rightarrow> Inl x | Inr u \<Rightarrow> Inr ?w)"
    "snd (CSVWriter e name cols s) = snd (initialize_file e ?w s)"
    by (simp_all add: CSVWriter_def Let_def split: prod.splits sum.splits)
  have a: "fst (CSVWriter e name cols s) = Inr ?w \<and>
         files (snd (CSVWriter e name cols s)) name = Some [map JStr cols]"
    if "files s name = None" "open_error e (history s) name = None"
      "write_error e (history s @ [OpenFile name]) name = None"
    using initialize_file_missing(1) [of s ?w e] that by (simp add: fst_snd)
  have b: "fst (CSVWriter e name cols s) = Inl (OSError msg) \<and>
         files (snd (CSVWriter e name cols s)) name = Some []"
    if "files s name = None" "open_error e (history s) name = None"
      "write_error e (history s @ [OpenFile name]) name = Some msg"
    using initialize_file_missing(2) [of s ?w e msg] that by (simp add: fst_snd)
  have c: "CSVWriter e name cols t = (Inr ?w, t)" if "files t name \<noteq> None" for t
    using that initialize_file_existing [of t ?w e] by (simp add: CSVWriter_def)
  have d: "files s1 name \<noteq> None \<and> CSVWriter e name cols s1 = (Inr w, s1) \<and>
      (files s name = None \<longrightarrow> files s1 name = Some [map JStr cols])"
    if "CSVWriter e name cols s = (Inr w, s1)"
  proof -
    from that have w: "w = ?w" and i: "initialize_file e ?w s = (Inr (), s1)"
      by (auto simp: CSVWriter_def Let_def split: prod.splits sum.splits)
    from initialize_file_Inr [OF i] c [of s1] w show ?thesis
      by simp
  qed
  from a b c [of s] d save_row_Inr [of e w d s "()" s1] show ?thesis
    by blast
qed

theorem csv_writer_initializes_once_witness:
  "files start ''jobs.csv'' = None \<and>
   open_error site (history start) ''jobs.csv'' = None \<and>
   write_error site (history start @ [OpenFile ''jobs.csv'']) ''jobs.csv'' = None \<and>
   fst (CSVWriter site ''jobs.csv'' job_fieldnames start) = Inr (csv_writer zip_scraper) \<and>
   files (snd (CSVWriter site ''jobs.csv'' job_fieldnames start)) ''jobs.csv''
     = Some [map JStr job_fieldnames] \<and>
   CSVWriter site ''jobs.csv'' job_fieldnames (snd (CSVWriter site ''jobs.csv'' job_fieldnames start))
     = (Inr (csv_writer zip_scraper), snd (CSVWriter site ''jobs.csv'' job_fieldnames start))"
proof -
  let ?s1 = "snd (CSVWriter site ''jobs.csv'' job_fieldnames start)"
  have h: "files start ''jobs.csv'' = None" "open_error site (history start) ''jobs.csv'' = None"
    "write_error site (history start @ [OpenFile ''jobs.csv'']) ''jobs.csv'' = None"
    by (simp_all add: start_def site_def)
  have w: "\<lparr>filename = ''jobs.csv'', fieldnames = job_fieldnames\<rparr> = csv_writer zip_scraper"
    by (simp add: zip_scraper_def)
  note a = csv_writer_initializes_once [where e = site and name = "''jobs.csv''"
      and cols = job_fieldnames and s = start, THEN conjunct1, rule_format, OF h(1) h(2),
      THEN conjunct1, rule_format, OF h(3), unfolded w]
  from a have "files ?s1 ''jobs.csv'' \<noteq> None"
    by simp
  note b = csv_writer_initializes_once [where e = site and name = "''jobs.csv''"
      and cols = job_fieldnames and s = ?s1, THEN conjunct2, THEN conjunct1, rule_format,
      OF this, unfolded w]
  from h a b show ?thesis
    by (intro conjI) (erule conjunct1 conjunct2 | assumption)+
qed

text \<open>
  Claim C9, as stated, fails: when the header cannot be written into the file just
  created, the first construction raises and leaves an empty store; the second
  construction finds the store and writes no header; the first append then puts a job
  into a store that has no header.
\<close>

theorem csv_store_without_header:
  "fst (CSVWriter header_fails_site ''jobs.csv'' job_fieldnames start)
     = Inl (OSError ''No space left on device'') \<and>
   files (snd (CSVWriter header_fails_site ''jobs.csv'' job_fieldnames start)) ''jobs.csv'' = Some [] \<and>
   fst (CSVWriter header_fails_site ''jobs.csv'' job_fieldnames
         (snd (CSVWriter header_fails_site ''jobs.csv'' job_fieldnames start)))
     = Inr (csv_writer zip_scraper) \<and>
   (case save_row header_fails_site (csv_writer zip_scraper) [(''Title'', JStr ''Cloud Engineer'')]
           (snd (CSVWriter header_fails_site ''jobs.csv'' job_fieldnames
                  (snd (CSVWriter header_fails_site ''jobs.csv'' job_fieldnames start)))) of
      (r, s1) \<Rightarrow> (r, map_option (map (\<lambda>row. row ! 3)) (files s1 ''jobs.csv'')))
     = (Inr (), Some [JStr ''Cloud Engineer''])"
  by (simp add: CSVWriter_def initialize_file_def save_row_def dict_to_list_def job_fieldnames_def
        header_fails_site_def site_def start_def zip_scraper_def)

section \<open>The job record\<close>

lemma and_then_Inr: "and_then x f = Inr v \<longleftrightarrow> (\<exists>a. x = Inr a \<and> f a = Inr v)"
  by (cases x) (simp_all add: and_then_def)

lemma job_record_shape:
  assumes "job_record e h url data = Inr r"
  shows "\<exists>title city region job_type description org company posted.
           getitem data ''title'' = Inr title \<and> getitem data ''hiringOrganization'' = Inr org \<and>
           getitem org ''name'' = Inr company \<and>
           r = [(''Domain'', JStr ''ZipRecruiter''), (''PostUrl'', JStr url), (''JobID'', JStr ''''),
                (''Title'', title), (''City'', city), (''State'', region),
                (''Speciality'', JStr ''''), (''JobType'', job_type),
                (''JobDetails'', JStr description), (''Industry'', JStr ''''),
                (''Company'', company), (''PostedOn'', posted), (''SalaryFrom'', JStr ''''),
                (''SalaryUpto'', JStr ''''), (''PayoutTerm'', JStr ''''),
                (''IsEstimatedSalary'', JBool False), (''ScrapedOn'', JStr (now e h))]"
proof -
  from assms obtain d description title city region job_type org company posted where
    "getitem data ''title'' = Inr title" "getitem data ''hiringOrganization'' = Inr org"
    "getitem org ''name'' = Inr company"
    "Inr [(''Domain'', JStr ''ZipRecruiter''), (''PostUrl'', JStr url), (''JobID'', JStr ''''),
                (''Title'', title), (''City'', city), (''State'', region),
                (''Speciality'', JStr ''''), (''JobType'', job_type),
                (''JobDetails'', JStr description), (''Industry'', JStr ''''),
                (''Company'', company), (''PostedOn'', posted), (''SalaryFrom'', JStr ''''),
                (''SalaryUpto'', JStr ''''), (''PayoutTerm'', JStr ''''),
                (''IsEstimatedSalary'', JBool False), (''ScrapedOn'', JStr (now e h))] = (Inr r :: exn + (string \<times> json) list)"
    unfolding job_record_def and_then_Inr by blast
  then show ?thesis
    unfolding sum.inject by (intro exI conjI) (assumption, assumption, assumption, erule sym)
qed



lemma get_details_Some:
  assumes "get_details e self url s = (Inr (Some r), s')"
  shows "\<exists>response block data.
           fetch e url (logger (GettingDetails (last_segment url)) s) = (Inr response, s') \<and>
           ld_json_text e response = Some block \<and> json_loads e block = Inr data \<and>
           job_record e (history s') url data = Inr r"
proof -
  obtain res s1 where f: "fetch e url (logger (GettingDetails (last_segment url)) s) = (res, s1)"
    by (cases "fetch e url (logger (GettingDetails (last_segment url)) s)")
  with assms obtain response where r: "res = Inr response"
    by (cases res) (auto simp: get_details_def)
  with assms f have d: "details_of e (history s1) url response = Inr (Some r)" and s: "s' = s1"
    by (auto simp: get_details_def split: sum.splits)
  from d obtain block where t: "ld_json_text e response = Some block"
    by (cases "ld_json_text e response") (auto simp: details_of_def)
  with d obtain data where "json_loads e block = Inr data" "job_record e (history s1) url data = Inr r"
    by (auto simp: details_of_def and_then_Inr)
  with f r s t show ?thesis by simp
qed





section \<open>The run\<close>

lemma run_errors_logger [simp]:
  "run_errors (logger m s) = run_errors s @ (if is_run_error m then [m] else [])"
  by (simp add: run_errors_def logger_def)

lemma run_errors_update [simp]:
  "run_errors (s\<lparr>history := h\<rparr>) = run_errors s"
  "run_errors (s\<lparr>visited := v\<rparr>) = run_errors s"
  "run_errors (s\<lparr>files := f\<rparr>) = run_errors s"
  "run_errors (s\<lparr>job_links := l\<rparr>) = run_errors s"
  by (simp_all add: run_errors_def)

lemma run_errors_fetch_method [simp]:
  "run_errors (snd (fetch_method m e url s)) = run_errors s"
  by (simp add: fetch_method_eq fetch_with_def Let_def split: sum.splits)

lemma run_errors_fetch_loop [simp]:
  "run_errors (snd (fetch_loop e url ms s)) = run_errors s"
proof (induction ms arbitrary: s)
  case Nil
  then show ?case by simp
next
  case (Cons m ms)
  obtain r s1 where f: "fetch_method m e url s = (r, s1)"
    by (cases "fetch_method m e url s")
  with run_errors_fetch_method [of m e url s] have "run_errors s1 = run_errors s"
    by simp
  with Cons.IH f show ?case
    by (auto split: sum.splits option.splits)
qed

lemma run_errors_fetch [simp]: "run_errors (snd (fetch e url s)) = run_errors s"
  by (simp add: fetch_def)

lemma run_errors_get_details [simp]:
  "run_errors (snd (get_details e self url s)) = run_errors s"
proof -
  obtain r s1 where f: "fetch e url (logger (GettingDetails (last_segment url)) s) = (r, s1)"
    by (cases "fetch e url (logger (GettingDetails (last_segment url)) s)")
  with run_errors_fetch [of e url "logger (GettingDetails (last_segment url)) s"]
  have "run_errors s1 = run_errors s" by simp
  with f show ?thesis
    by (auto simp: get_details_def split: sum.splits)
qed

lemma logged_save_row [simp]: "logged (snd (save_row e w d s)) = logged s"
  by (simp add: save_row_def Let_def split: option.splits sum.splits)

lemma run_errors_save_row [simp]: "run_errors (snd (save_row e w d s)) = run_errors s"
  by (simp add: run_errors_def)

lemma run_errors_process_link [simp]:
  "run_errors (snd (process_link e self link s)) = run_errors s"
proof -
  obtain r s1 where g: "get_details e self link s = (r, s1)"
    by (cases "get_details e self link s")
  with run_errors_get_details [of e self link s] have "run_errors s1 = run_errors s"
    by simp
  with g show ?thesis
    by (auto simp: process_link_def split: sum.splits option.splits)
qed

lemma run_errors_run_tasks [simp]:
  "run_errors (snd (run_tasks e self links s)) = run_errors s"
proof (induction links arbitrary: s)
  case Nil
  then show ?case by simp
next
  case (Cons link links)
  obtain r s1 where p: "process_link e self link s = (r, s1)"
    by (cases "process_link e self link s")
  with run_errors_process_link [of e self link s] have s1: "run_errors s1 = run_errors s"
    by simp
  obtain rs s2 where t: "run_tasks e self links s1 = (rs, s2)"
    by (cases "run_tasks e self links s1")
  with Cons.IH [of s1] have "run_errors s2 = run_errors s1"
    by simp
  with s1 p t show ?case
    by simp
qed

lemma run_errors_gather [simp]: "run_errors (snd (gather e self links s)) = run_errors s"
proof -
  obtain rs s1 where t: "run_tasks e self links s = (rs, s1)"
    by (cases "run_tasks e self links s")
  with run_errors_run_tasks [of e self links s] have "run_errors s1 = run_errors s"
    by simp
  with t show ?thesis
    by (simp add: gather_def split: option.splits)
qed

lemma run_errors_links_except:
  "links_except p r x s = (res, s') \<Longrightarrow> run_errors s' = run_errors s"
  by (auto simp: links_except_def Let_def split: option.splits if_splits)

lemma run_errors_extend_links:
  "extend_links p links s = (res, s') \<Longrightarrow> run_errors s' = run_errors s"
  by (auto simp: extend_links_def split: option.splits if_splits)

lemma run_errors_get_links:
  "get_links e self q n p s = (res, s') \<Longrightarrow> run_errors s' = run_errors s"
proof (induction n arbitrary: p s res s')
  case 0
  then show ?case by simp
next
  case (Suc n)
  obtain r s1 where gp: "get_page e self p q s = (r, s1)"
    by (cases "get_page e self p q s")
  then have s1: "run_errors s1 = run_errors s"
    by (metis get_page_def run_errors_fetch snd_conv)
  show ?case
  proof (cases r)
    case (Inl x)
    with Suc.prems gp
    have "links_except p None x (s1\<lparr>visited := visited s1 @ [(p, None)]\<rparr>) = (res, s')"
      by simp
    from run_errors_links_except [OF this] s1 show ?thesis by simp
  next
    case (Inr response)
    note rI = Inr
    let ?s2 = "s1\<lparr>visited := visited s1 @ [(p, Some response)]\<rparr>"
    obtain r3 s3 where ex: "extend_links p (job_list_titles e response) ?s2 = (r3, s3)"
      by (cases "extend_links p (job_list_titles e response) ?s2")
    from run_errors_extend_links [OF ex] s1 have s3: "run_errors s3 = run_errors s"
      by simp
    show ?thesis
    proof (cases "response = []")
      case True
      with Suc.prems gp rI s1 show ?thesis by auto
    next
      case False
      show ?thesis
      proof (cases "\<exists>u tok k. r3 = Inr u \<and> next_page_text e response = Some tok \<and> py_int e tok = Some k")
        case True
        then obtain u tok k where m: "r3 = Inr u" "next_page_text e response = Some tok"
          "py_int e tok = Some k"
          by blast
        obtain r4 s4 where rec: "get_links e self q n k s3 = (r4, s4)"
          by (cases "get_links e self q n k s3")
        from Suc.IH [OF rec] s3 have s4: "run_errors s4 = run_errors s"
          by simp
        show ?thesis
        proof (cases r4)
          case (Inl x)
          with Suc.prems gp rI False ex m rec
          have "links_except p (Some response) x s4 = (res, s')"
            by simp
          from run_errors_links_except [OF this] s4 show ?thesis by simp
        next
          case (Inr u')
          with Suc.prems gp rI False ex m rec s4 show ?thesis by simp
        qed
      next
        case False
        with Suc.prems gp rI \<open>response \<noteq> []\<close> ex s3 show ?thesis
          by (auto split: sum.splits option.splits dest: run_errors_links_except)
      qed
    qed
  qed
qed

lemma run_errors_run_query: "run_errors (snd (run_query e self n q s)) = run_errors s"
proof -
  obtain r1 s1 where g: "get_links e self q n 1 (logger StartLoadLinks s) = (r1, s1)"
    by (cases "get_links e self q n 1 (logger StartLoadLinks s)")
  from run_errors_get_links [OF g] have s1: "run_errors s1 = run_errors s"
    by simp
  show ?thesis
  proof (cases r1)
    case (Inl x)
    with g s1 show ?thesis
      by (simp add: run_query_def load_links_def)
  next
    case (Inr u)
    let ?s2 = "logger (TotalLinks (length (job_links s1))) s1"
    let ?s3 = "logger (ProcessingLinks (length (job_links s1)) q) ?s2"
    from run_errors_gather [of e self "job_links s1" ?s3] s1
    have "run_errors (snd (gather e self (job_links s1) ?s3)) = run_errors s"
      by simp
    with g s1 Inr show ?thesis
      by (simp add: run_query_def load_links_def)
  qed
qed

lemma run_queries_result:
  "fst (run_queries e self n qs s) = Inr () \<and>
   length (run_errors (snd (run_queries e self n qs s))) \<le> length (run_errors s) + length qs"
proof (induction qs arbitrary: s)
  case Nil
  then show ?case by simp
next
  case (Cons q qs)
  obtain r1 s1 where rq: "run_query e self n q s = (r1, s1)"
    by (cases "run_query e self n q s")
  with run_errors_run_query [of e self n q s] have s1: "run_errors s1 = run_errors s"
    by simp
  show ?case
  proof (cases r1)
    case (Inl x)
    with rq Cons.IH [of "logger (ErrorInRun q x) s1"] s1 show ?thesis by simp
  next
    case (Inr u)
    with rq Cons.IH [of s1] s1 show ?thesis by simp
  qed
qed

lemma gather_first_failure:
  assumes "fst (process_link e self link s) = Inl x"
  shows "gather e self (link # links) s
           = (Inl x, snd (gather e self links (snd (process_link e self link s))))"
proof -
  obtain s1 where p: "process_link e self link s = (Inl x, s1)"
    using assms by (cases "process_link e self link s") auto
  obtain rs s2 where t: "run_tasks e self links s1 = (rs, s2)"
    by (cases "run_tasks e self links s1")
  with p show ?thesis
    by (simp add: gather_def split: option.splits)
qed

lemma process_link_writes:
  assumes "fst (get_details e self link s) = Inr (Some d)"
  shows "\<exists>t. map_of d ''Title'' = Some t \<and>
           process_link e self link s
             = save_row e (csv_writer self) d (logger (ScrapedJob t) (snd (get_details e self link s)))"
proof -
  obtain s1 where g: "get_details e self link s = (Inr (Some d), s1)"
    using assms by (cases "get_details e self link s") auto
  from get_details_Some [OF g] obtain data where "job_record e (history s1) link data = Inr d"
    by blast
  from job_record_shape [OF this] obtain title where "map_of d ''Title'' = Some title" "d \<noteq> []"
    by auto
  with g show ?thesis
    by (simp add: process_link_def)
qed

text \<open>
  The definitions unfolded when a run is evaluated in one of the example worlds.
\<close>

lemmas model_defs =
  process_link_def get_details_def fetch_def fetch_order_def fetch_tls_def fetch_aiohttp_def
  fetch_httpx_def fetch_with_def logger_def details_of_def job_record_def and_then_def
  save_row_def dict_to_list_def job_fieldnames_def last_segment_def gather_def get_page_def
  load_links_def links_except_def extend_links_def run_query_def run_def SKILLS_def run_errors_def
  main_def ZipRecruiterScraper_def CSVWriter_def initialize_file_def

lemmas world_defs =
  site_def site_pages_def cloud_url_def developer_url_def start_def zip_scraper_def job_posting_def
  down_site_def full_disk_site_def flaky_disk_site_def

text \<open>
  Claim C7, as amended. The run returns normally, for every world and every recursion
  limit: every exception of a crawl or of a batch is caught by the handler in the loop
  of \<^verbatim>\<open>run\<close>, which logs at most one line for each query; \<^verbatim>\<open>main\<close> returns normally
  too. A failure of the CSV write is not caught where the record is written:
  \<^verbatim>\<open>process_link\<close> ends with \<^verbatim>\<open>save_row\<close>, which logs nothing and raises when the file
  cannot be opened, so the failure becomes the exception of the gather and is reported
  once, for the query. When every page of the batch is answered by the blocking TLS
  client, so that no task is suspended and the schedule is the one modelled, the other
  links of the batch are processed as they would have been.
\<close>

theorem run_survives_failures:
  "fst (run e self n s) = Inr () \<and>
   length (run_errors (snd (run e self n s))) \<le> length (run_errors s) + length SKILLS \<and>
   fst (main e out n s) = Inr () \<and>
   (fst (get_details e self link s) = Inr (Some d) \<longrightarrow>
      (\<exists>t. map_of d ''Title'' = Some t \<and>
         process_link e self link s
           = save_row e (csv_writer self) d (logger (ScrapedJob t) (snd (get_details e self link s))))) \<and>
   logged (snd (save_row e w d s)) = logged s \<and>
   (open_error e (history s) (filename w) = Some msg \<longrightarrow>
      fst (save_row e w d s) = Inl (OSError msg)) \<and>
   ((\<forall>url \<in> set (link # links). \<forall>h. nonempty_body (transport e h TLS url)) \<longrightarrow>
    fst (process_link e self link s) = Inl x \<longrightarrow>
      gather e self (link # links) s
        = (Inl x, snd (gather e self links (snd (process_link e self link s)))))"
proof (intro conjI impI)
  from run_queries_result [of e self n SKILLS "logger StartScraping s"]
  show "fst (run e self n s) = Inr ()"
    "length (run_errors (snd (run e self n s))) \<le> length (run_errors s) + length SKILLS"
    by (simp_all add: run_def)
next
  show "fst (main e out n s) = Inr ()"
    by (simp add: main_def split: prod.splits sum.splits)
next
  assume "fst (get_details e self link s) = Inr (Some d)"
  then show "\<exists>t. map_of d ''Title'' = Some t \<and>
         process_link e self link s
           = save_row e (csv_writer self) d (logger (ScrapedJob t) (snd (get_details e self link s)))"
    by (rule process_link_writes)
next
  show "logged (snd (save_row e w d s)) = logged s"
    by simp
next
  assume "open_error e (history s) (filename w) = Some msg"
  then show "fst (save_row e w d s) = Inl (OSError msg)"
    by (simp add: save_row_def)
next
  assume "fst (process_link e self link s) = Inl x"
  then show "gather e self (link # links) s
        = (Inl x, snd (gather e self links (snd (process_link e self link s))))"
    by (rule gather_first_failure)
qed

theorem run_survives_failures_witness:
  "fst (run flaky_disk_site zip_scraper 5 start) = Inr () \<and>
   (\<forall>h. nonempty_body (transport flaky_disk_site h TLS cloud_url)) \<and>
   (\<forall>h. nonempty_body (transport flaky_disk_site h TLS developer_url)) \<and>
   open_error flaky_disk_site (history (snd (get_details flaky_disk_site zip_scraper cloud_url start)))
     (filename (csv_writer zip_scraper)) = Some ''Device busy'' \<and>
   fst (process_link flaky_disk_site zip_scraper cloud_url start) = Inl (OSError ''Device busy'') \<and>
   fst (gather flaky_disk_site zip_scraper [cloud_url, developer_url] start)
     = Inl (OSError ''Device busy'') \<and>
   map_option (map (\<lambda>row. row ! 1))
     (files (snd (gather flaky_disk_site zip_scraper [cloud_url, developer_url] start)) ''jobs.csv'')
     = Some [JStr developer_url]"
proof -
  let ?s1 = "snd (get_details flaky_disk_site zip_scraper cloud_url start)"
  let ?d = "[(''Domain'', JStr ''ZipRecruiter''), (''PostUrl'', JStr cloud_url),
                (''JobID'', JStr ''''), (''Title'', JStr ''Cloud Engineer''),
                (''City'', JStr ''Pune''), (''State'', JStr ''MH''), (''Speciality'', JStr ''''),
                (''JobType'', JStr ''FULL_TIME''), (''JobDetails'', JStr ''Build things''),
                (''Industry'', JStr ''''), (''Company'', JStr ''Acme''),
                (''PostedOn'', JStr ''2024-04-30''), (''SalaryFrom'', JStr ''''),
                (''SalaryUpto'', JStr ''''), (''PayoutTerm'', JStr ''''),
                (''IsEstimatedSalary'', JBool False),
                (''ScrapedOn'', JStr ''2024-05-01 12:00:00'')]"
  have tls: "\<forall>h. nonempty_body (transport flaky_disk_site h TLS cloud_url)"
    "\<forall>h. nonempty_body (transport flaky_disk_site h TLS developer_url)"
    by (simp_all add: world_defs)
  then have hyp: "\<forall>url \<in> set [cloud_url, developer_url].
      \<forall>h. nonempty_body (transport flaky_disk_site h TLS url)"
    by simp
  have d: "fst (get_details flaky_disk_site zip_scraper cloud_url start) = Inr (Some ?d)"
    and o: "open_error flaky_disk_site (history ?s1) (filename (csv_writer zip_scraper))
        = Some ''Device busy''"
    by (simp_all add: model_defs world_defs)
  have f: "map_option (map (\<lambda>row. row ! 1))
     (files (snd (gather flaky_disk_site zip_scraper [developer_url]
              (snd (process_link flaky_disk_site zip_scraper cloud_url start)))) ''jobs.csv'')
     = Some [JStr developer_url]"
    by (simp add: model_defs world_defs)
  note t = run_survives_failures [where e = flaky_disk_site and self = zip_scraper and n = 5
      and s = start and link = cloud_url and links = "[developer_url]"]
  from t have r: "fst (run flaky_disk_site zip_scraper 5 start) = Inr ()"
    by (rule conjunct1)
  from t [where d = ?d] d obtain ti where
    p: "process_link flaky_disk_site zip_scraper cloud_url start
          = save_row flaky_disk_site (csv_writer zip_scraper) ?d (logger (ScrapedJob ti) ?s1)"
    by blast
  from run_survives_failures [where e = flaky_disk_site and w = "csv_writer zip_scraper"
      and s = "logger (ScrapedJob ti) ?s1" and msg = "''Device busy''" and d = ?d] o
  have "fst (save_row flaky_disk_site (csv_writer zip_scraper) ?d (logger (ScrapedJob ti) ?s1))
      = Inl (OSError ''Device busy'')"
    by simp
  with p have pl: "fst (process_link flaky_disk_site zip_scraper cloud_url start)
      = Inl (OSError ''Device busy'')"
    by simp
  from t [where x = "OSError ''Device busy''"] hyp pl
  have g: "gather flaky_disk_site zip_scraper [cloud_url, developer_url] start
        = (Inl (OSError ''Device busy''),
           snd (gather flaky_disk_site zip_scraper [developer_url]
                 (snd (process_link flaky_disk_site zip_scraper cloud_url start))))"
    by blast
  from r tls o pl g f show ?thesis
    by simp
qed

text \<open>
  Claim C7, as stated, fails: when the disk is full once the header is written, the
  five records of the run over the two queries fail to be written (the file is opened
  six times and holds the header only), and the log has two lines for these failures,
  one for each query.
\<close>

theorem sink_failures_logged_once_per_query:
  "(case main full_disk_site ''jobs.csv'' 5 start of
      (r, s1) \<Rightarrow> (r, length (filter (\<lambda>ev. ev = OpenFile ''jobs.csv'') (history s1)),
                  run_errors s1, files s1 ''jobs.csv''))
   = (Inr (), 6, [ErrorInRun ''aws'' (OSError ''No space left on device''),
                  ErrorInRun ''python'' (OSError ''No space left on device'')],
      Some [map JStr job_fieldnames])"
  by (simp add: model_defs world_defs eval_nat_numeral)

text \<open>
  Claim C2 against the code. When no client reaches the page of a link, the exception
  of the fetch leaves \<^verbatim>\<open>get_details\<close> (the fetch stands before its \<^verbatim>\<open>try\<close>) and
  \<^verbatim>\<open>process_link\<close>: no line names the link as dropped, the gather over the batch raises,
  and the handler of \<^verbatim>\<open>run\<close> logs one error for the query.
\<close>

theorem fetch_failure_leaves_process_link:
  "fst (process_link down_site zip_scraper cloud_url start)
     = Inl (Exception ''All fetch methods failed'') \<and>
   logged (snd (process_link down_site zip_scraper cloud_url start))
     = [GettingDetails ''cloud-engineer'', FetchingURL ''cloud-engineer'',
        ClientError TLS ''timed out'', ClientError Aiohttp ''timed out'',
        ClientError Httpx ''timed out''] \<and>
   fst (gather down_site zip_scraper [cloud_url, developer_url] start)
     = Inl (Exception ''All fetch methods failed'') \<and>
   NoDataFound cloud_url \<notin> set (logged (snd (gather down_site zip_scraper [cloud_url, developer_url] start))) \<and>
   run_errors (snd (run_queries down_site zip_scraper 5 [''aws''] start))
     = [ErrorInRun ''aws'' (Exception ''All fetch methods failed'')]"
  by (simp add: model_defs world_defs eval_nat_numeral)

text \<open>
  Claim C5 against the code. \<^verbatim>\<open>self.job_links\<close> is set to the empty list in the
  constructor only. The crawl for python alone finds one link; after the crawl for aws
  it returns the two links found for aws and then its own, and \<^verbatim>\<open>run\<close> processes all
  three for python.
\<close>

theorem job_links_accumulate_across_queries:
  "fst (load_links site zip_scraper 5 ''python'' start) = Inr [developer_url] \<and>
   fst (load_links site zip_scraper 5 ''python'' (snd (load_links site zip_scraper 5 ''aws'' start)))
     = Inr [cloud_url, cloud_url, developer_url] \<and>
   ProcessingLinks 3 ''python'' \<in> set (logged (snd (run site zip_scraper 5 start)))"
  by (simp add: model_defs world_defs eval_nat_numeral)

end
